theory Spec2Isabelle
  imports Main "HOL-Library.Char_ord" "HOL-Library.List_Lexorder" "HOL-Library.Word"
begin

section \<open>JSON-like values and JavaScript objects\<close>

text \<open>
  The payloads the SDK signs are plain data. A JavaScript string is modelled as a
  \<^typ>\<open>string\<close> whose characters are code units below 256; a number is an integer
  (the SDK's timestamps, expiry windows and counters), printed in decimal as
  \<^verbatim>\<open>JSON.stringify\<close> prints every integer of magnitude below \<open>10^21\<close>.

  An object is written \<open>JObj ps\<close>, where \<open>ps\<close> is the sequence of its property
  definitions in the order they were made (an object literal, a spread, or the members
  read by \<^verbatim>\<open>JSON.parse\<close>). The order in which JavaScript then enumerates the own
  properties (\<^verbatim>\<open>Object.keys\<close>, \<^verbatim>\<open>JSON.stringify\<close>, spread) is
  \<open>own_props ps\<close>: array-index keys first, in ascending numeric order, then every other
  key in the order of its first definition (ECMAScript, OrdinaryOwnPropertyKeys).
\<close>

datatype json =
    JNull
  | JBool bool
  | JNum int
  | JStr string
  | JArr "json list"
  | JObj "(string \<times> json) list"

type_synonym 'a props = "(string \<times> 'a) list"

definition is_digit :: "char \<Rightarrow> bool" where
  "is_digit c \<longleftrightarrow> CHR ''0'' \<le> c \<and> c \<le> CHR ''9''"

definition digit_val :: "char \<Rightarrow> int" where
  "digit_val c = of_char c - 48"

definition decimal_val :: "string \<Rightarrow> int" where
  "decimal_val s = foldl (\<lambda>n c. 10 * n + digit_val c) 0 s"

text \<open>An array index is the canonical decimal form of an integer in \<open>[0, 2^32 - 2]\<close>.\<close>

definition is_array_index :: "string \<Rightarrow> bool" where
  "is_array_index k \<longleftrightarrow>
     k \<noteq> [] \<and> list_all is_digit k \<and> (k = ''0'' \<or> CHR ''1'' \<le> hd k) \<and>
     decimal_val k < 4294967295"

fun insert_index :: "string \<Rightarrow> 'a \<Rightarrow> 'a props \<Rightarrow> 'a props" where
  "insert_index k v [] = [(k, v)]"
| "insert_index k v (p # ps) =
     (if is_array_index (fst p) \<and> decimal_val (fst p) < decimal_val k
      then p # insert_index k v ps
      else (k, v) # p # ps)"

text \<open>
  \<open>define_prop\<close> is CreateDataProperty on an ordinary object whose own properties are
  listed in enumeration order: an existing key keeps its place and takes the new value,
  a new array index goes to its numeric place, any other new key goes to the end.
\<close>

definition define_prop :: "string \<Rightarrow> 'a \<Rightarrow> 'a props \<Rightarrow> 'a props" where
  "define_prop k v ps =
     (if k \<in> set (map fst ps) then map (\<lambda>p. if fst p = k then (k, v) else p) ps
      else if is_array_index k then insert_index k v ps
      else ps @ [(k, v)])"

definition own_props :: "'a props \<Rightarrow> 'a props" where
  "own_props ps = foldl (\<lambda>acc p. define_prop (fst p) (snd p) acc) [] ps"

text \<open>
  \<open>assign_prop\<close> is the assignment \<^verbatim>\<open>sorted[key] = value\<close> on an object made by
  \<^verbatim>\<open>{}\<close>: the key \<^verbatim>\<open>__proto__\<close> reaches the accessor inherited from
  \<^verbatim>\<open>Object.prototype\<close> and creates no own property; every other key is defined.
\<close>

definition assign_prop :: "string \<Rightarrow> 'a \<Rightarrow> 'a props \<Rightarrow> 'a props" where
  "assign_prop k v ps = (if k = ''__proto__'' then ps else define_prop k v ps)"

section \<open>Canonicalizer (signer utilities: sortJsonKeys, createCompactJson)\<close>

text \<open>
  The loop of \<^verbatim>\<open>sortJsonKeys\<close>: \<^verbatim>\<open>keys = Object.keys(obj).sort()\<close>, then
  \<^verbatim>\<open>sorted[key] = sortJsonKeys(obj[key])\<close> for each key. The default sort
  compares strings by code units, which is the lexicographic order on \<^typ>\<open>string\<close>.
  The recursive calls on the property values are made before the loop here (the function
  is pure, so the result is the same); \<open>sort_object\<close> is the loop on the values
  already sorted, and \<open>assign_step\<close> is its body: \<open>obj\<close> reads a member of the
  object (every key of the loop is one of its own keys), \<open>acc\<close> is \<^verbatim>\<open>sorted\<close>.
\<close>

definition assign_step :: "(string \<Rightarrow> 'a option) \<Rightarrow> 'a props \<Rightarrow> string \<Rightarrow> 'a props" where
  "assign_step obj acc key = (case obj key of Some v \<Rightarrow> assign_prop key v acc | None \<Rightarrow> acc)"

definition sort_object :: "'a props \<Rightarrow> 'a props" where
  "sort_object ps =
     (let obj = own_props ps; keys = sort (map fst obj)
      in foldl (assign_step (map_of obj)) [] keys)"

fun sortJsonKeys :: "json \<Rightarrow> json" where
  "sortJsonKeys (JArr xs) = JArr (map sortJsonKeys xs)"
| "sortJsonKeys (JObj ps) = JObj (sort_object (map (\<lambda>p. (fst p, sortJsonKeys (snd p))) ps))"
| "sortJsonKeys v = v"

subsection \<open>\<^verbatim>\<open>JSON.stringify\<close> without indentation\<close>

definition hex_digit_lower :: "int \<Rightarrow> char" where
  "hex_digit_lower n = (if n < 10 then char_of (48 + n) else char_of (87 + n))"

definition quote_char :: "char \<Rightarrow> string" where
  "quote_char c =
     (if c = CHR 0x22 then [CHR 0x5C, CHR 0x22]
      else if c = CHR 0x5C then [CHR 0x5C, CHR 0x5C]
      else if c = CHR 0x08 then [CHR 0x5C, CHR ''b'']
      else if c = CHR 0x09 then [CHR 0x5C, CHR ''t'']
      else if c = CHR 0x0A then [CHR 0x5C, CHR ''n'']
      else if c = CHR 0x0C then [CHR 0x5C, CHR ''f'']
      else if c = CHR 0x0D then [CHR 0x5C, CHR ''r'']
      else if (of_char c :: int) < 32
        then [CHR 0x5C, CHR ''u'', CHR ''0'', CHR ''0'',
              hex_digit_lower (of_char c div 16), hex_digit_lower (of_char c mod 16)]
      else [c])"

definition JSON_quote :: "string \<Rightarrow> string" where
  "JSON_quote s = CHR 0x22 # concat (map quote_char s) @ [CHR 0x22]"

function digits :: "int \<Rightarrow> string" where
  "digits n = (if n < 10 then [char_of (48 + n)] else digits (n div 10) @ [char_of (48 + n mod 10)])"
  by pat_completeness auto
termination
  by (relation "measure nat") auto

declare digits.simps [simp del]

definition number_to_string :: "int \<Rightarrow> string" where
  "number_to_string i = (if i < 0 then CHR ''-'' # digits (- i) else digits i)"

fun join :: "string \<Rightarrow> string list \<Rightarrow> string" where
  "join sep [] = []"
| "join sep [x] = x"
| "join sep (x # y # ys) = x @ sep @ join sep (y # ys)"

definition member_text :: "string \<times> string \<Rightarrow> string" where
  "member_text p = JSON_quote (fst p) @ '':'' @ snd p"

fun JSON_stringify :: "json \<Rightarrow> string" where
  "JSON_stringify JNull = ''null''"
| "JSON_stringify (JBool b) = (if b then ''true'' else ''false'')"
| "JSON_stringify (JNum n) = number_to_string n"
| "JSON_stringify (JStr s) = JSON_quote s"
| "JSON_stringify (JArr xs) = ''['' @ join '','' (map JSON_stringify xs) @ '']''"
| "JSON_stringify (JObj ps) =
     ''{'' @ join '','' (map member_text (own_props (map (\<lambda>p. (fst p, JSON_stringify (snd p))) ps))) @ ''}''"

definition createCompactJson :: "json \<Rightarrow> string" where
  "createCompactJson obj = JSON_stringify (sortJsonKeys obj)"

section \<open>Byte strings and the text encodings of the runtime\<close>

type_synonym byte = "8 word"

text \<open>
  \<^verbatim>\<open>Buffer.from(s, 'hex')\<close> decodes pairs of hexadecimal digits and stops at the
  first pair that is not one (a trailing single character is dropped); it never throws.
  \<^verbatim>\<open>buf.toString('hex')\<close> prints two lower-case digits per byte.
\<close>

definition hex_val :: "char \<Rightarrow> int option" where
  "hex_val c =
     (if CHR ''0'' \<le> c \<and> c \<le> CHR ''9'' then Some (of_char c - 48)
      else if CHR ''a'' \<le> c \<and> c \<le> CHR ''f'' then Some (of_char c - 87)
      else if CHR ''A'' \<le> c \<and> c \<le> CHR ''F'' then Some (of_char c - 55)
      else None)"

fun hex_decode :: "string \<Rightarrow> byte list" where
  "hex_decode (a # b # rest) =
     (case hex_val a of
        None \<Rightarrow> []
      | Some x \<Rightarrow> (case hex_val b of
                     None \<Rightarrow> []
                   | Some y \<Rightarrow> word_of_int (16 * x + y) # hex_decode rest))"
| "hex_decode _ = []"

definition hex_encode :: "byte list \<Rightarrow> string" where
  "hex_encode bs =
     concat (map (\<lambda>b. [hex_digit_lower (uint b div 16), hex_digit_lower (uint b mod 16)]) bs)"

text \<open>
  \<^verbatim>\<open>bs58\<close> (base-x over the Bitcoin alphabet): every leading zero byte is the
  character \<^verbatim>\<open>1\<close>, the remaining bytes are one big-endian number written in base 58.
  \<^verbatim>\<open>decode\<close> throws on a character outside the alphabet.
\<close>

definition b58_alphabet :: string where
  "b58_alphabet = ''123456789ABCDEFGHJKLMNPQRSTUVWXYZabcdefghijkmnopqrstuvwxyz''"

fun index_in :: "char \<Rightarrow> string \<Rightarrow> int option" where
  "index_in c [] = None"
| "index_in c (x # xs) =
     (if c = x then Some 0 else (case index_in c xs of None \<Rightarrow> None | Some i \<Rightarrow> Some (i + 1)))"

definition b58_val :: "char \<Rightarrow> int" where
  "b58_val c = (case index_in c b58_alphabet of Some i \<Rightarrow> i | None \<Rightarrow> 0)"

function bytes_of_int :: "int \<Rightarrow> byte list" where
  "bytes_of_int n = (if n \<le> 0 then [] else bytes_of_int (n div 256) @ [word_of_int (n mod 256)])"
  by pat_completeness auto
termination
  by (relation "measure nat") auto

declare bytes_of_int.simps [simp del]

definition int_of_bytes :: "byte list \<Rightarrow> int" where
  "int_of_bytes bs = foldl (\<lambda>n b. 256 * n + uint b) 0 bs"

function b58_digits :: "int \<Rightarrow> string" where
  "b58_digits n =
     (if n \<le> 0 then [] else b58_digits (n div 58) @ [b58_alphabet ! nat (n mod 58)])"
  by pat_completeness auto
termination
  by (relation "measure nat") auto

declare b58_digits.simps [simp del]

definition bs58_encode :: "byte list \<Rightarrow> string" where
  "bs58_encode bs =
     replicate (length (takeWhile (\<lambda>b. b = 0) bs)) (CHR ''1'') @ b58_digits (int_of_bytes bs)"

definition bs58_decode :: "string \<Rightarrow> byte list option" where
  "bs58_decode s =
     (if list_all (\<lambda>c. c \<in> set b58_alphabet) s
      then Some (replicate (length (takeWhile (\<lambda>c. c = CHR ''1'') s)) 0 @
                 bytes_of_int (foldl (\<lambda>n c. 58 * n + b58_val c) 0 s))
      else None)"

text \<open>
  \<^verbatim>\<open>Buffer.from(s, 'base64')\<close> is lenient and never throws: characters outside the
  standard and the URL-safe alphabets are skipped, decoding stops at the first
  \<^verbatim>\<open>=\<close>, and every complete group of 8 bits among the 6-bit values read is a byte.
\<close>

definition b64_val :: "char \<Rightarrow> int option" where
  "b64_val c =
     (if CHR ''A'' \<le> c \<and> c \<le> CHR ''Z'' then Some (of_char c - 65)
      else if CHR ''a'' \<le> c \<and> c \<le> CHR ''z'' then Some (of_char c - 71)
      else if CHR ''0'' \<le> c \<and> c \<le> CHR ''9'' then Some (of_char c + 4)
      else if c = CHR ''+'' \<or> c = CHR ''-'' then Some 62
      else if c = CHR ''/'' \<or> c = CHR ''_'' then Some 63
      else None)"

fun b64_sextets :: "string \<Rightarrow> int list" where
  "b64_sextets [] = []"
| "b64_sextets (c # cs) =
     (if c = CHR ''='' then []
      else (case b64_val c of None \<Rightarrow> b64_sextets cs | Some v \<Rightarrow> v # b64_sextets cs))"

fun b64_groups :: "int list \<Rightarrow> byte list" where
  "b64_groups (a # b # c # d # rest) =
     word_of_int (4 * a + b div 16) # word_of_int (16 * (b mod 16) + c div 4) #
     word_of_int (64 * (c mod 4) + d) # b64_groups rest"
| "b64_groups [a, b, c] = [word_of_int (4 * a + b div 16), word_of_int (16 * (b mod 16) + c div 4)]"
| "b64_groups [a, b] = [word_of_int (4 * a + b div 16)]"
| "b64_groups _ = []"

definition base64_decode :: "string \<Rightarrow> byte list" where
  "base64_decode s = b64_groups (b64_sextets s)"

text \<open>\<^verbatim>\<open>TextEncoder.encode\<close>: UTF-8 of code units below 256.\<close>

definition utf8_encode :: "string \<Rightarrow> byte list" where
  "utf8_encode s =
     concat (map (\<lambda>c. if (of_char c :: int) < 128 then [word_of_int (of_char c)]
                      else [word_of_int (192 + of_char c div 64), word_of_int (128 + of_char c mod 64)]) s)"

text \<open>\<^verbatim>\<open>String.prototype.trim\<close> on code units below 256.\<close>

definition is_space :: "char \<Rightarrow> bool" where
  "is_space c \<longleftrightarrow> c \<in> set [CHR 0x09, CHR 0x0A, CHR 0x0B, CHR 0x0C, CHR 0x0D, CHR 0x20, CHR 0xA0]"

definition trim :: "string \<Rightarrow> string" where
  "trim s = rev (dropWhile is_space (rev (dropWhile is_space s)))"

definition startsWith :: "string \<Rightarrow> string \<Rightarrow> bool" where
  "startsWith s p \<longleftrightarrow> take (length p) s = p"

section \<open>The Ed25519 primitives\<close>

text \<open>
  \<^verbatim>\<open>@noble/ed25519\<close> is an external library: the SDK's functions take its three
  operations as a parameter. \<open>None\<close> is a thrown exception (a rejected promise).
\<close>

record ed25519 =
  ed_getPublicKey :: "byte list \<Rightarrow> byte list option"
  ed_sign :: "byte list \<Rightarrow> byte list \<Rightarrow> byte list option"
  ed_verify :: "byte list \<Rightarrow> byte list \<Rightarrow> byte list \<Rightarrow> bool option"

section \<open>KeyMaterial resolver (signer utilities: generateKeypair)\<close>

datatype key_input = KeyString string | KeyBytes "byte list"

datatype sdk_error =
    InvalidKeyFormat
  | InvalidKeyLength nat
  | Ed25519Failure
  | HardwareWalletError

record keypair =
  publicKey :: "byte list"
  privateKey :: "byte list"

text \<open>
  The three attempts on a string. Each returns \<open>Some\<close> where the source returns from
  the function and \<open>None\<close> where it falls through to the next attempt (a failed guard,
  or an exception caught by the attempt's \<^verbatim>\<open>try\<close>).
\<close>

definition derive :: "ed25519 \<Rightarrow> byte list \<Rightarrow> keypair option" where
  "derive ed privateKeyBytes =
     (if length privateKeyBytes = 32
      then (case ed_getPublicKey ed privateKeyBytes of
              Some pk \<Rightarrow> Some \<lparr>publicKey = pk, privateKey = privateKeyBytes\<rparr>
            | None \<Rightarrow> None)
      else None)"

definition hex_attempt :: "ed25519 \<Rightarrow> string \<Rightarrow> keypair option" where
  "hex_attempt ed cleanKey =
     (if length cleanKey = 128 \<or> (startsWith cleanKey ''0x'' \<and> length cleanKey = 130)
      then derive ed (hex_decode (if startsWith cleanKey ''0x'' then drop 2 cleanKey else cleanKey))
      else None)"

text \<open>The regular expression \<^verbatim>\<open>/^[1-9A-HJ-NP-Za-km-z]+$/\<close>.\<close>

definition base58_class :: "char \<Rightarrow> bool" where
  "base58_class c \<longleftrightarrow>
     (CHR ''1'' \<le> c \<and> c \<le> CHR ''9'') \<or> (CHR ''A'' \<le> c \<and> c \<le> CHR ''H'') \<or>
     (CHR ''J'' \<le> c \<and> c \<le> CHR ''N'') \<or> (CHR ''P'' \<le> c \<and> c \<le> CHR ''Z'') \<or>
     (CHR ''a'' \<le> c \<and> c \<le> CHR ''k'') \<or> (CHR ''m'' \<le> c \<and> c \<le> CHR ''z'')"

definition base58Regex :: "string \<Rightarrow> bool" where
  "base58Regex s \<longleftrightarrow> s \<noteq> [] \<and> list_all base58_class s"

definition base58_attempt :: "ed25519 \<Rightarrow> string \<Rightarrow> keypair option" where
  "base58_attempt ed cleanKey =
     (if base58Regex cleanKey
      then (case bs58_decode cleanKey of
              None \<Rightarrow> None
            | Some decoded \<Rightarrow>
                if length decoded = 64 then derive ed (take 32 decoded)
                else if length decoded = 32 then derive ed decoded
                else if length decoded > 32 then derive ed (take 32 decoded)
                else None)
      else None)"

definition base64_attempt :: "ed25519 \<Rightarrow> string \<Rightarrow> keypair option" where
  "base64_attempt ed cleanKey = derive ed (base64_decode cleanKey)"

definition generateKeypair :: "ed25519 \<Rightarrow> key_input \<Rightarrow> sdk_error + keypair" where
  "generateKeypair ed key =
     (case key of
        KeyString s \<Rightarrow>
          (let cleanKey = trim s in
           case hex_attempt ed cleanKey of
             Some kp \<Rightarrow> Inr kp
           | None \<Rightarrow>
               (case base58_attempt ed cleanKey of
                  Some kp \<Rightarrow> Inr kp
                | None \<Rightarrow>
                    (case base64_attempt ed cleanKey of
                       Some kp \<Rightarrow> Inr kp
                     | None \<Rightarrow> Inl InvalidKeyFormat)))
      | KeyBytes bs \<Rightarrow>
          (if length bs \<noteq> 32 then Inl (InvalidKeyLength (length bs))
           else (case ed_getPublicKey ed bs of
                   None \<Rightarrow> Inl Ed25519Failure
                 | Some pk \<Rightarrow> Inr \<lparr>publicKey = pk, privateKey = bs\<rparr>)))"

definition publicKeyToHex :: "byte list \<Rightarrow> string" where
  "publicKeyToHex pk = hex_encode pk"

definition publicKeyToBase58 :: "byte list \<Rightarrow> string" where
  "publicKeyToBase58 pk = bs58_encode pk"

section \<open>Signing and verification (signer utilities: signMessage, verifySignature)\<close>

definition signMessage :: "ed25519 \<Rightarrow> string \<Rightarrow> byte list \<Rightarrow> sdk_error + string" where
  "signMessage ed message privateKeyBytes =
     (case ed_sign ed (utf8_encode message) privateKeyBytes of
        None \<Rightarrow> Inl Ed25519Failure
      | Some signature \<Rightarrow> Inr (bs58_encode signature))"

definition verifySignature :: "ed25519 \<Rightarrow> string \<Rightarrow> string \<Rightarrow> string \<Rightarrow> bool" where
  "verifySignature ed message signature publicKeyText =
     (let messageBytes = utf8_encode message;
          signatureBytes = hex_decode signature;
          publicKeyBytes = hex_decode (if startsWith publicKeyText ''0x'' then drop 2 publicKeyText
                                       else publicKeyText)
      in case ed_verify ed signatureBytes messageBytes publicKeyBytes of
           Some ok \<Rightarrow> ok
         | None \<Rightarrow> False)"

section \<open>Request signer (signer utilities: createSignatureHeader, buildSignedRequest)\<close>

record SignatureHeader =
  timestamp :: int
  expiry_window :: "int option"

text \<open>\<open>now\<close> is the value of \<^verbatim>\<open>Date.now()\<close> at the call.\<close>

definition createSignatureHeader :: "int \<Rightarrow> int option \<Rightarrow> SignatureHeader" where
  "createSignatureHeader now expiryWindow = \<lparr>timestamp = now, expiry_window = expiryWindow\<rparr>"

record SignedRequest =
  sr_account :: string
  sr_signature :: string
  sr_operation :: string
  sr_data :: "json props"
  sr_timestamp :: int
  sr_expiry_window :: "int option"

text \<open>JavaScript truthiness of an optional string: \<^verbatim>\<open>undefined\<close> and \<^verbatim>\<open>''\<close> are falsy.\<close>

definition truthy :: "string option \<Rightarrow> bool" where
  "truthy s = (case s of None \<Rightarrow> False | Some t \<Rightarrow> t \<noteq> [])"

definition or_else :: "string option \<Rightarrow> string option \<Rightarrow> string option" where
  "or_else a b = (if truthy a then a else b)"

text \<open>The object literal \<^verbatim>\<open>{ type, timestamp, ...(expiry_window), data }\<close> that is signed.\<close>

definition messagePayload :: "string \<Rightarrow> SignatureHeader \<Rightarrow> json props \<Rightarrow> json" where
  "messagePayload operation header data =
     JObj ([(''type'', JStr operation), (''timestamp'', JNum (timestamp header))] @
           (case expiry_window header of None \<Rightarrow> [] | Some w \<Rightarrow> [(''expiry_window'', JNum w)]) @
           [(''data'', JObj data)])"

definition accountAddress_of :: "string \<Rightarrow> string" where
  "accountAddress_of accountPublicKey =
     (if startsWith accountPublicKey ''0x''
      then (let hexKey = drop 2 accountPublicKey
            in if length hexKey = 64 then bs58_encode (hex_decode hexKey) else accountPublicKey)
      else if length accountPublicKey = 64 then bs58_encode (hex_decode accountPublicKey)
      else accountPublicKey)"

definition buildSignedRequest ::
  "ed25519 \<Rightarrow> int \<Rightarrow> string \<Rightarrow> json props \<Rightarrow> key_input \<Rightarrow> string option \<Rightarrow> int option
     \<Rightarrow> sdk_error + SignedRequest" where
  "buildSignedRequest ed now operation data privKey accountPublicKey expiryWindow =
     (case generateKeypair ed privKey of
        Inl e \<Rightarrow> Inl e
      | Inr kp \<Rightarrow>
          (let accountAddress =
                 (if truthy accountPublicKey then accountAddress_of (the accountPublicKey)
                  else bs58_encode (publicKey kp));
               header = createSignatureHeader now expiryWindow;
               compactJson = createCompactJson (messagePayload operation header data)
           in case signMessage ed compactJson (privateKey kp) of
                Inl e \<Rightarrow> Inl e
              | Inr signature \<Rightarrow>
                  Inr \<lparr>sr_account = accountAddress, sr_signature = signature,
                       sr_operation = operation, sr_data = data,
                       sr_timestamp = timestamp header, sr_expiry_window = expiryWindow\<rparr>))"

subsection \<open>Hardware wallet variant\<close>

text \<open>
  \<open>exec\<close> is the external \<^verbatim>\<open>solana\<close> command line: it maps the command to its
  \<open>(stdout, stderr)\<close>, or \<open>None\<close> when the process fails.
\<close>

fun split_lines :: "string \<Rightarrow> string list" where
  "split_lines [] = [[]]"
| "split_lines (c # cs) =
     (if c = CHR 0x0A then [] # split_lines cs
      else (case split_lines cs of [] \<Rightarrow> [[c]] | l # ls \<Rightarrow> (c # l) # ls))"

definition str_includes :: "string \<Rightarrow> string \<Rightarrow> bool" where
  "str_includes s sub \<longleftrightarrow> list_ex (\<lambda>i. take (length sub) (drop i s) = sub) [0..<Suc (length s)]"

definition signWithHardwareWallet ::
  "(string \<Rightarrow> (string \<times> string) option) \<Rightarrow> string \<Rightarrow> string \<Rightarrow> sdk_error + string" where
  "signWithHardwareWallet exec message hardwareWalletPath =
     (case exec (''solana sign-offchain-message -k '' @ [CHR 0x22] @ hardwareWalletPath @
                 [CHR 0x22, CHR '' '', CHR 0x22] @ message @ [CHR 0x22]) of
        None \<Rightarrow> Inl HardwareWalletError
      | Some (stdout, stderr) \<Rightarrow>
          if stderr \<noteq> [] \<and> \<not> str_includes stderr ''Please approve'' then Inl HardwareWalletError
          else (let signature = trim (last (split_lines (trim stdout)))
                in if signature = [] then Inl HardwareWalletError else Inr signature))"

definition header_fields :: "string \<Rightarrow> string \<Rightarrow> int \<Rightarrow> int option \<Rightarrow> json props" where
  "header_fields account signature ts expiry =
     [(''account'', JStr account), (''signature'', JStr signature), (''timestamp'', JNum ts)] @
     (case expiry of None \<Rightarrow> [] | Some w \<Rightarrow> [(''expiry_window'', JNum w)])"

text \<open>
  The flattened body \<^verbatim>\<open>{ account, signature, timestamp, ...(expiry_window), ...data }\<close>:
  the four header members are defined first, then every own property of \<open>data\<close>, in
  its enumeration order.
\<close>

definition flatten_body :: "string \<Rightarrow> string \<Rightarrow> int \<Rightarrow> int option \<Rightarrow> json props \<Rightarrow> json props" where
  "flatten_body account signature ts expiry data =
     header_fields account signature ts expiry @ own_props data"

definition buildSignedRequestWithHardwareWallet ::
  "(string \<Rightarrow> (string \<times> string) option) \<Rightarrow> int \<Rightarrow> string \<Rightarrow> json props \<Rightarrow> string \<Rightarrow> string
     \<Rightarrow> int option \<Rightarrow> sdk_error + json props" where
  "buildSignedRequestWithHardwareWallet exec now operation data accountPublicKey hardwareWalletPath
       expiryWindow =
     (let header = createSignatureHeader now expiryWindow;
          compactJson = createCompactJson (messagePayload operation header data)
      in case signWithHardwareWallet exec compactJson hardwareWalletPath of
           Inl e \<Rightarrow> Inl e
         | Inr signature \<Rightarrow>
             Inr (flatten_body
                    (if startsWith accountPublicKey ''0x'' then drop 2 accountPublicKey
                     else accountPublicKey)
                    signature (timestamp header) (expiry_window header) data))"

section \<open>SignClient (clients/SignClient.ts: constructor, makeSignedRequest)\<close>

record SignClientConfig =
  cfg_accountPublicKey :: "string option"
  cfg_agentWalletPublicKey :: "string option"
  cfg_expiryWindow :: "int option"

record SignClient =
  sc_privateKey :: key_input
  sc_accountPublicKey :: "string option"
  sc_agentWalletPublicKey :: "string option"
  sc_defaultExpiryWindow :: int

definition SignClient_new :: "key_input \<Rightarrow> SignClientConfig option \<Rightarrow> SignClient" where
  "SignClient_new privKey config =
     \<lparr>sc_privateKey = privKey,
      sc_accountPublicKey = (case config of None \<Rightarrow> None | Some c \<Rightarrow> cfg_accountPublicKey c),
      sc_agentWalletPublicKey = (case config of None \<Rightarrow> None | Some c \<Rightarrow> cfg_agentWalletPublicKey c),
      sc_defaultExpiryWindow =
        (case config of
           None \<Rightarrow> 5000
         | Some c \<Rightarrow> (case cfg_expiryWindow c of None \<Rightarrow> 5000 | Some w \<Rightarrow> w))\<rparr>"

record RequestOptions =
  agent_wallet :: "string option"
  hardware_wallet_path :: "string option"

text \<open>The arguments of the call \<^verbatim>\<open>this.post(endpoint, body, headers)\<close> that ends the method.\<close>

record post_call =
  pc_endpoint :: string
  pc_body :: "json props"
  pc_headers :: "(string \<times> string) list"

definition request_headers :: "string option \<Rightarrow> (string \<times> string) list" where
  "request_headers agentWallet =
     [(''Content-Type'', ''application/json'')] @
     (if truthy agentWallet then [(''agent_wallet'', the agentWallet)] else [])"

definition makeSignedRequest ::
  "ed25519 \<Rightarrow> (string \<Rightarrow> (string \<times> string) option) \<Rightarrow> int \<Rightarrow> SignClient \<Rightarrow> string \<Rightarrow> string
     \<Rightarrow> json props \<Rightarrow> RequestOptions option \<Rightarrow> sdk_error + post_call" where
  "makeSignedRequest ed exec now client endpoint operation data options =
     (let agentWalletPublicKey =
            or_else (case options of None \<Rightarrow> None | Some opt \<Rightarrow> agent_wallet opt)
                    (sc_agentWalletPublicKey client);
          hardwarePath = (case options of None \<Rightarrow> None | Some opt \<Rightarrow> hardware_wallet_path opt);
          derived =
            (if truthy (sc_accountPublicKey client) then Inr (sc_accountPublicKey client)
             else (case generateKeypair ed (sc_privateKey client) of
                     Inl e \<Rightarrow> Inl e
                   | Inr kp \<Rightarrow> Inr (Some (publicKeyToHex (publicKey kp)))))
      in case derived of
           Inl e \<Rightarrow> Inl e
         | Inr accountPublicKey \<Rightarrow>
             if truthy hardwarePath \<and> truthy accountPublicKey
             then (case buildSignedRequestWithHardwareWallet exec now operation data
                          (the accountPublicKey) (the hardwarePath)
                          (Some (sc_defaultExpiryWindow client)) of
                     Inl e \<Rightarrow> Inl e
                   | Inr signedRequest \<Rightarrow>
                       Inr \<lparr>pc_endpoint = endpoint, pc_body = signedRequest,
                            pc_headers = request_headers agentWalletPublicKey\<rparr>)
             else (case buildSignedRequest ed now operation data (sc_privateKey client)
                          accountPublicKey (Some (sc_defaultExpiryWindow client)) of
                     Inl e \<Rightarrow> Inl e
                   | Inr signedRequest \<Rightarrow>
                       Inr \<lparr>pc_endpoint = endpoint,
                            pc_body = flatten_body (sr_account signedRequest)
                                        (sr_signature signedRequest) (sr_timestamp signedRequest)
                                        (sr_expiry_window signedRequest) data,
                            pc_headers = request_headers agentWalletPublicKey\<rparr>))"

text \<open>\<^verbatim>\<open>post\<close> sends \<^verbatim>\<open>JSON.stringify(body)\<close>: the text on the wire.\<close>

definition wire_text :: "post_call \<Rightarrow> string" where
  "wire_text call = JSON_stringify (JObj (pc_body call))"

section \<open>HTTP transport (clients/BaseClient.ts: constructor, isRetryableError, get)\<close>

record BaseClient =
  retryAttempts :: int
  retryDelay :: int

text \<open>\<^verbatim>\<open>config?.retryAttempts ?? 3\<close> and \<^verbatim>\<open>config?.retryDelay ?? 1000\<close>.\<close>

definition BaseClient_new :: "int option \<Rightarrow> int option \<Rightarrow> BaseClient" where
  "BaseClient_new cfgRetryAttempts cfgRetryDelay =
     \<lparr>retryAttempts = (case cfgRetryAttempts of None \<Rightarrow> 3 | Some n \<Rightarrow> n),
      retryDelay = (case cfgRetryDelay of None \<Rightarrow> 1000 | Some d \<Rightarrow> d)\<rparr>"

text \<open>
  What one call of \<^verbatim>\<open>fetch\<close> can do: answer with a status, the
  \<^verbatim>\<open>Retry-After\<close> header and a body (\<open>None\<close> when \<^verbatim>\<open>response.json()\<close> throws),
  be aborted by the timeout, or fail at the network level.
\<close>

datatype fetch_result =
    Response int "string option" "json option"
  | Aborted
  | NetworkFailure

text \<open>What the \<^verbatim>\<open>try\<close> block throws, and the errors the method ends with.\<close>

datatype thrown =
    RateLimitThrown "int option"
  | APIThrown int
  | AbortThrown
  | GenericThrown

datatype http_error =
    NetworkError
  | TimeoutError
  | RateLimitError "int option"
  | APIError int
  | LastError "thrown option"

datatype event = Sleep int | Fetch int

text \<open>
  \<^verbatim>\<open>parseInt\<close> without a radix: leading white space, a sign, then hexadecimal
  digits after \<^verbatim>\<open>0x\<close> or decimal digits; \<open>None\<close> is \<^verbatim>\<open>NaN\<close>.
\<close>

definition parseInt :: "string \<Rightarrow> int option" where
  "parseInt s =
     (let s1 = dropWhile is_space s;
          neg = (s1 \<noteq> [] \<and> hd s1 = CHR ''-'');
          s2 = (if s1 \<noteq> [] \<and> (hd s1 = CHR ''-'' \<or> hd s1 = CHR ''+'') then tl s1 else s1);
          sgn = (if neg then - 1 else 1)
      in if startsWith s2 ''0x'' \<or> startsWith s2 ''0X''
         then (let ds = takeWhile (\<lambda>c. hex_val c \<noteq> None) (drop 2 s2)
               in if ds = [] then None
                  else Some (sgn * foldl (\<lambda>n c. 16 * n + the (hex_val c)) 0 ds))
         else (let ds = takeWhile is_digit s2
               in if ds = [] then None else Some (sgn * decimal_val ds)))"

definition status_truthy :: "int option \<Rightarrow> bool" where
  "status_truthy status = (case status of None \<Rightarrow> False | Some n \<Rightarrow> n \<noteq> 0)"

definition isRetryableError :: "thrown \<Rightarrow> int option \<Rightarrow> bool" where
  "isRetryableError error status =
     (if (error = GenericThrown \<or> error = AbortThrown) \<and> \<not> status_truthy status then True
      else if status_truthy status \<and> the status \<ge> 500 then True
      else if status = Some 429 then True
      else False)"

definition backoff :: "BaseClient \<Rightarrow> int \<Rightarrow> int" where
  "backoff c k = retryDelay c * 2 ^ nat k"

text \<open>The \<^verbatim>\<open>try\<close> block after the sleep: the result, and the new \<^verbatim>\<open>lastStatus\<close>.\<close>

text \<open>
  \<^verbatim>\<open>retryAfterMs = retryAfter ? parseInt(retryAfter) * 1000 : retryDelay * 2^attempt\<close>;
  \<open>None\<close> is \<^verbatim>\<open>NaN\<close>.
\<close>

definition retryAfterMs :: "BaseClient \<Rightarrow> int \<Rightarrow> string option \<Rightarrow> int option" where
  "retryAfterMs c attempt retryAfter =
     (if truthy retryAfter then map_option (\<lambda>n. n * 1000) (parseInt (the retryAfter))
      else Some (backoff c attempt))"

definition try_block ::
  "BaseClient \<Rightarrow> int \<Rightarrow> fetch_result \<Rightarrow> int option \<Rightarrow> (thrown + json) \<times> int option" where
  "try_block c attempt fetched lastStatus =
     (case fetched of
        Aborted \<Rightarrow> (Inl AbortThrown, lastStatus)
      | NetworkFailure \<Rightarrow> (Inl GenericThrown, lastStatus)
      | Response status retryAfter body \<Rightarrow>
          if status = 429
          then (Inl (RateLimitThrown (retryAfterMs c attempt retryAfter)), Some status)
          else if \<not> (200 \<le> status \<and> status \<le> 299) then (Inl (APIThrown status), Some status)
          else (case body of
                  None \<Rightarrow> (Inl GenericThrown, Some status)
                | Some data \<Rightarrow> (Inr data, Some status)))"

datatype decision = Continue "int option" | Throw http_error

text \<open>\<^verbatim>\<open>error.retryAfter || retryDelay * 2^attempt\<close>: \<^verbatim>\<open>NaN\<close> and 0 are falsy.\<close>

definition rate_limit_sleep :: "BaseClient \<Rightarrow> int \<Rightarrow> int option \<Rightarrow> int" where
  "rate_limit_sleep c attempt retryAfter =
     (case retryAfter of
        None \<Rightarrow> backoff c attempt
      | Some ms \<Rightarrow> if ms \<noteq> 0 then ms else backoff c attempt)"

text \<open>The \<^verbatim>\<open>catch\<close> block: retry (after an optional sleep) or throw.\<close>

definition catch_block :: "BaseClient \<Rightarrow> int \<Rightarrow> thrown \<Rightarrow> int option \<Rightarrow> decision" where
  "catch_block c attempt error lastStatus =
     (case error of
        RateLimitThrown retryAfter \<Rightarrow>
          if attempt < retryAttempts c
          then Continue (Some (rate_limit_sleep c attempt retryAfter))
          else if isRetryableError error lastStatus \<and> attempt < retryAttempts c then Continue None
          else Throw (RateLimitError retryAfter)
      | AbortThrown \<Rightarrow> if attempt < retryAttempts c then Continue None else Throw TimeoutError
      | APIThrown status \<Rightarrow>
          if isRetryableError error lastStatus \<and> attempt < retryAttempts c then Continue None
          else Throw (APIError status)
      | GenericThrown \<Rightarrow>
          if isRetryableError error lastStatus \<and> attempt < retryAttempts c then Continue None
          else if status_truthy lastStatus then Throw (APIError (the lastStatus))
          else Throw NetworkError)"

text \<open>
  The \<^verbatim>\<open>for\<close> loop of \<^verbatim>\<open>get\<close> (the loop of \<^verbatim>\<open>post\<close> has the same
  control flow). \<open>net k\<close> is what the fetch of attempt \<open>k\<close> does; the trace records every
  sleep and every fetch in the order they happen.
\<close>

function get_loop ::
  "BaseClient \<Rightarrow> (int \<Rightarrow> fetch_result) \<Rightarrow> int \<Rightarrow> thrown option \<Rightarrow> int option \<Rightarrow> event list
     \<Rightarrow> (http_error + json) \<times> event list" where
  "get_loop c net attempt lastError lastStatus tr =
     (if attempt \<le> retryAttempts c
      then (let tr1 = (if attempt > 0 then tr @ [Sleep (backoff c (attempt - 1))] else tr);
                tr2 = tr1 @ [Fetch attempt];
                r = try_block c attempt (net attempt) lastStatus
            in case fst r of
                 Inr data \<Rightarrow> (Inr data, tr2)
               | Inl error \<Rightarrow>
                   (case catch_block c attempt error (snd r) of
                      Throw e \<Rightarrow> (Inl e, tr2)
                    | Continue None \<Rightarrow> get_loop c net (attempt + 1) (Some error) (snd r) tr2
                    | Continue (Some ms) \<Rightarrow>
                        get_loop c net (attempt + 1) (Some error) (snd r) (tr2 @ [Sleep ms])))
      else (Inl (LastError lastError), tr))"
  by pat_completeness auto
termination
  by (relation "measure (\<lambda>(c, net, attempt, lastError, lastStatus, tr). nat (retryAttempts c + 1 - attempt))") auto

declare get_loop.simps [simp del]

definition get :: "BaseClient \<Rightarrow> (int \<Rightarrow> fetch_result) \<Rightarrow> (http_error + json) \<times> event list" where
  "get c net = get_loop c net 0 None None []"

definition attempts :: "event list \<Rightarrow> nat" where
  "attempts tr = length (filter (\<lambda>e. case e of Fetch k \<Rightarrow> True | Sleep ms \<Rightarrow> False) tr)"

definition sleeps :: "event list \<Rightarrow> int list" where
  "sleeps tr = concat (map (\<lambda>e. case e of Sleep ms \<Rightarrow> [ms] | Fetch k \<Rightarrow> []) tr)"

section \<open>Streaming transport (clients/ApiClient.ts: WebSocketClient)\<close>

datatype ready_state = CONNECTING | OPEN | CLOSING | CLOSED

datatype frame = SubscribeFrame string | UnsubscribeFrame string

datatype ws_event =
    EvOpen | EvClose | EvError | EvMessage | EvReconnect | EvSubscription
  | EvOrderUpdate | EvTrade | EvTicker | EvOrderbook | EvTwapOrder | EvTwapOrderUpdate

text \<open>
  The argument an event is emitted with: \<^verbatim>\<open>{}\<close>, \<^verbatim>\<open>{ error }\<close>, the parsed
  message, a member of the message (\<open>None\<close> is \<^verbatim>\<open>undefined\<close>),
  \<^verbatim>\<open>{ attempt }\<close> or \<^verbatim>\<open>{ channel }\<close>.
\<close>

datatype event_data =
    NoData
  | ErrorData
  | MessageData json
  | FieldData "json option"
  | ReconnectData int
  | SubscriptionData string

text \<open>
  A registered handler is a function object: \<open>h_id\<close> is its identity (what the
  \<^verbatim>\<open>Set\<close> of handlers compares), \<open>h_throws\<close> tells on which arguments the call
  throws. Handlers are taken to be observers: they do not call back into the client.
\<close>

record handler =
  h_id :: nat
  h_throws :: "event_data \<Rightarrow> bool"

text \<open>
  The client. \<open>subscriptions\<close> is the \<^verbatim>\<open>Set\<close>, in insertion order; \<open>ws\<close> is the
  \<^verbatim>\<open>readyState\<close> of the current socket (\<open>None\<close> when \<^verbatim>\<open>this.ws\<close> is null);
  \<open>reconnectTimer\<close> is the delay of the pending timer. \<open>sent\<close>, \<open>calls\<close> and
  \<open>logged\<close> record what the client does: the frames written to the socket, the
  handler invocations, and the events whose handler error was logged.
\<close>

record WebSocketClient =
  ws :: "ready_state option"
  cfg_reconnect :: bool
  cfg_reconnectInterval :: int
  cfg_maxReconnectAttempts :: int
  reconnectAttempts :: int
  reconnectTimer :: "int option"
  eventHandlers :: "ws_event \<Rightarrow> handler list"
  isConnecting :: bool
  subscriptions :: "string list"
  sent :: "frame list"
  calls :: "(nat \<times> ws_event \<times> event_data) list"
  logged :: "ws_event list"

datatype ws_error = ChannelMustBeNonEmpty | NotConnected | TypeError

definition WebSocketClient_new :: "bool option \<Rightarrow> int option \<Rightarrow> int option \<Rightarrow> WebSocketClient" where
  "WebSocketClient_new reconn interval maxAttempts =
     \<lparr>ws = None,
      cfg_reconnect = (reconn \<noteq> Some False),
      cfg_reconnectInterval = (case interval of None \<Rightarrow> 5000 | Some i \<Rightarrow> if i = 0 then 5000 else i),
      cfg_maxReconnectAttempts = (case maxAttempts of None \<Rightarrow> 10 | Some m \<Rightarrow> if m = 0 then 10 else m),
      reconnectAttempts = 0,
      reconnectTimer = None,
      eventHandlers = (\<lambda>ev. []),
      isConnecting = False,
      subscriptions = [],
      sent = [],
      calls = [],
      logged = []\<rparr>"

definition set_add :: "'a \<Rightarrow> 'a list \<Rightarrow> 'a list" where
  "set_add x xs = (if x \<in> set xs then xs else xs @ [x])"

definition set_delete :: "'a \<Rightarrow> 'a list \<Rightarrow> 'a list" where
  "set_delete x xs = filter (\<lambda>y. y \<noteq> x) xs"

definition on :: "ws_event \<Rightarrow> handler \<Rightarrow> WebSocketClient \<Rightarrow> WebSocketClient" where
  "on ev h s =
     s\<lparr>eventHandlers := (eventHandlers s)
          (ev := (if h_id h \<in> set (map h_id (eventHandlers s ev)) then eventHandlers s ev
                  else eventHandlers s ev @ [h]))\<rparr>"

definition off :: "ws_event \<Rightarrow> handler \<Rightarrow> WebSocketClient \<Rightarrow> WebSocketClient" where
  "off ev h s =
     s\<lparr>eventHandlers := (eventHandlers s)
          (ev := filter (\<lambda>g. h_id g \<noteq> h_id h) (eventHandlers s ev))\<rparr>"

text \<open>
  \<^verbatim>\<open>emit\<close>: the \<^verbatim>\<open>forEach\<close> over the handlers of the event, each call inside its
  own \<^verbatim>\<open>try\<close>; the \<^verbatim>\<open>catch\<close> logs and the loop goes on.
\<close>

fun invoke_all :: "ws_event \<Rightarrow> event_data \<Rightarrow> handler list \<Rightarrow> WebSocketClient \<Rightarrow> WebSocketClient" where
  "invoke_all ev d [] s = s"
| "invoke_all ev d (h # hs) s =
     (let called = s\<lparr>calls := calls s @ [(h_id h, ev, d)]\<rparr>
      in if h_throws h d
         then invoke_all ev d hs (called\<lparr>logged := logged called @ [ev]\<rparr>)
         else invoke_all ev d hs called)"

definition emit :: "ws_event \<Rightarrow> event_data \<Rightarrow> WebSocketClient \<Rightarrow> WebSocketClient" where
  "emit ev d s = invoke_all ev d (eventHandlers s ev) s"

definition is_open :: "WebSocketClient \<Rightarrow> bool" where
  "is_open s \<longleftrightarrow> ws s = Some OPEN"

definition send :: "frame \<Rightarrow> WebSocketClient \<Rightarrow> ws_error + WebSocketClient" where
  "send f s = (if \<not> is_open s then Inl NotConnected else Inr (s\<lparr>sent := sent s @ [f]\<rparr>))"

definition subscribe :: "string \<Rightarrow> WebSocketClient \<Rightarrow> ws_error + WebSocketClient" where
  "subscribe channel s =
     (if channel = [] then Inl ChannelMustBeNonEmpty
      else if \<not> is_open s then Inr (s\<lparr>subscriptions := set_add channel (subscriptions s)\<rparr>)
      else (case send (SubscribeFrame channel) s of
              Inl e \<Rightarrow> Inl e
            | Inr s1 \<Rightarrow>
                Inr (emit EvSubscription (SubscriptionData channel)
                       (s1\<lparr>subscriptions := set_add channel (subscriptions s1)\<rparr>))))"

definition unsubscribe :: "string \<Rightarrow> WebSocketClient \<Rightarrow> ws_error + WebSocketClient" where
  "unsubscribe channel s =
     (if \<not> is_open s then Inr (s\<lparr>subscriptions := set_delete channel (subscriptions s)\<rparr>)
      else (case send (UnsubscribeFrame channel) s of
              Inl e \<Rightarrow> Inl e
            | Inr s1 \<Rightarrow> Inr (s1\<lparr>subscriptions := set_delete channel (subscriptions s1)\<rparr>)))"

definition connect :: "WebSocketClient \<Rightarrow> WebSocketClient" where
  "connect s =
     (if ws s = Some OPEN then s
      else if isConnecting s then s
      else s\<lparr>isConnecting := True, ws := Some CONNECTING\<rparr>)"

definition disconnect :: "WebSocketClient \<Rightarrow> WebSocketClient" where
  "disconnect s = s\<lparr>reconnectTimer := None, ws := None, subscriptions := []\<rparr>"

text \<open>The \<^verbatim>\<open>forEach\<close> of the open handler: \<^verbatim>\<open>this.subscribe(channel)\<close> for each channel.\<close>

fun resubscribe :: "string list \<Rightarrow> WebSocketClient \<Rightarrow> ws_error + WebSocketClient" where
  "resubscribe [] s = Inr s"
| "resubscribe (channel # rest) s =
     (case subscribe channel s of Inl e \<Rightarrow> Inl e | Inr s1 \<Rightarrow> resubscribe rest s1)"

text \<open>
  The handlers that \<^verbatim>\<open>connect\<close> registers on the socket. The events are those of
  the socket that \<^verbatim>\<open>this.ws\<close> refers to (the client keeps one socket at a time):
  when its \<^verbatim>\<open>open\<close> event fires its \<^verbatim>\<open>readyState\<close> is \<open>OPEN\<close>; when
  its \<^verbatim>\<open>close\<close> event fires it is \<open>CLOSED\<close>.
\<close>

definition on_open :: "WebSocketClient \<Rightarrow> ws_error + WebSocketClient" where
  "on_open s =
     (let s1 = emit EvOpen NoData (s\<lparr>ws := Some OPEN, isConnecting := False, reconnectAttempts := 0\<rparr>)
      in resubscribe (subscriptions s1) s1)"

definition on_error :: "WebSocketClient \<Rightarrow> WebSocketClient" where
  "on_error s = emit EvError ErrorData (s\<lparr>isConnecting := False\<rparr>)"

definition handleReconnect :: "WebSocketClient \<Rightarrow> WebSocketClient" where
  "handleReconnect s =
     (if \<not> cfg_reconnect s then s
      else if reconnectAttempts s \<ge> cfg_maxReconnectAttempts s then emit EvError ErrorData s
      else (let s1 = s\<lparr>reconnectAttempts := reconnectAttempts s + 1\<rparr>;
                s2 = emit EvReconnect (ReconnectData (reconnectAttempts s1)) s1
            in s2\<lparr>reconnectTimer :=
                    Some (min (min (cfg_reconnectInterval s2 * 2 ^ nat (reconnectAttempts s2 - 1)) 60000)
                              60000)\<rparr>))"

definition on_close :: "WebSocketClient \<Rightarrow> WebSocketClient" where
  "on_close s =
     handleReconnect
       (emit EvClose NoData (s\<lparr>ws := map_option (\<lambda>r. CLOSED) (ws s), isConnecting := False\<rparr>))"

text \<open>The reconnect timer fires: \<^verbatim>\<open>this.connect()\<close>.\<close>

definition timer_fired :: "WebSocketClient \<Rightarrow> WebSocketClient" where
  "timer_fired s = connect s"

subsection \<open>Inbound frames\<close>

definition js_truthy :: "json \<Rightarrow> bool" where
  "js_truthy v =
     (case v of JNull \<Rightarrow> False | JBool b \<Rightarrow> b | JNum n \<Rightarrow> n \<noteq> 0 | JStr t \<Rightarrow> t \<noteq> []
      | JArr xs \<Rightarrow> True | JObj ps \<Rightarrow> True)"

text \<open>Reading a member of a parsed message: \<open>None\<close> is \<^verbatim>\<open>undefined\<close>.\<close>

definition member :: "json \<Rightarrow> string \<Rightarrow> json option" where
  "member v k = (case v of JObj ps \<Rightarrow> map_of (own_props ps) k | _ \<Rightarrow> None)"

text \<open>
  \<^verbatim>\<open>handleMessage\<close>. Reading \<^verbatim>\<open>message.type\<close> of \<^verbatim>\<open>null\<close> throws a
  TypeError, after the \<^verbatim>\<open>message\<close> event has been emitted.
\<close>

definition handleMessage :: "json \<Rightarrow> WebSocketClient \<Rightarrow> ws_error option \<times> WebSocketClient" where
  "handleMessage message s =
     (let s1 = emit EvMessage (MessageData message) s
      in if message = JNull then (Some TypeError, s1)
         else if member message ''type'' = Some (JStr ''order_update'')
           then (None, emit EvOrderUpdate (FieldData (member message ''data'')) s1)
         else if member message ''type'' = Some (JStr ''trade'')
           then (None, emit EvTrade (FieldData (member message ''data'')) s1)
         else if member message ''type'' = Some (JStr ''ticker'')
           then (None, emit EvTicker (FieldData (member message ''data'')) s1)
         else if member message ''type'' = Some (JStr ''orderbook'')
           then (None, emit EvOrderbook (FieldData (member message ''data'')) s1)
         else if member message ''type'' = Some (JStr ''account_twap_orders'') \<or>
                 member message ''source'' = Some (JStr ''account_twap_orders'')
           then (None, emit EvTwapOrder
                         (FieldData (Some (case member message ''data'' of
                                             Some d \<Rightarrow> if js_truthy d then d else message
                                           | None \<Rightarrow> message))) s1)
         else if member message ''type'' = Some (JStr ''account_twap_order_updates'') \<or>
                 member message ''source'' = Some (JStr ''account_twap_order_updates'')
           then (None, emit EvTwapOrderUpdate
                         (FieldData (Some (case member message ''data'' of
                                             Some d \<Rightarrow> if js_truthy d then d else message
                                           | None \<Rightarrow> message))) s1)
         else (None, s1))"

text \<open>
  The socket's \<^verbatim>\<open>message\<close> handler. \<open>parsed\<close> is the result of
  \<^verbatim>\<open>JSON.parse(data.toString())\<close>, \<open>None\<close> when it throws.
\<close>

definition on_message :: "json option \<Rightarrow> WebSocketClient \<Rightarrow> WebSocketClient" where
  "on_message parsed s =
     (case parsed of
        None \<Rightarrow> emit EvError ErrorData s
      | Some message \<Rightarrow>
          (case handleMessage message s of
             (None, s1) \<Rightarrow> s1
           | (Some e, s1) \<Rightarrow> emit EvError ErrorData s1))"

definition receive_all :: "json option list \<Rightarrow> WebSocketClient \<Rightarrow> WebSocketClient" where
  "receive_all frames s = foldl (\<lambda>st f. on_message f st) s frames"

section \<open>Vocabulary of the stated properties\<close>

text \<open>
  What one attempt contributes to the trace of a request: the backoff sleep before every
  attempt but the first, the fetch, and, after a 429 response that is retried, the sleep
  of the \<^verbatim>\<open>catch\<close> block.
\<close>

definition is_429 :: "fetch_result \<Rightarrow> bool" where
  "is_429 r = (case r of Response status retryAfter body \<Rightarrow> status = 429 | _ \<Rightarrow> False)"

definition retry_after_header :: "fetch_result \<Rightarrow> string option" where
  "retry_after_header r = (case r of Response status retryAfter body \<Rightarrow> retryAfter | _ \<Rightarrow> None)"

definition attempt_trace :: "BaseClient \<Rightarrow> (int \<Rightarrow> fetch_result) \<Rightarrow> int \<Rightarrow> event list" where
  "attempt_trace c net a =
     (if 0 < a then [Sleep (backoff c (a - 1))] else []) @ [Fetch a] @
     (if is_429 (net a) \<and> a < retryAttempts c
      then [Sleep (rate_limit_sleep c a (retryAfterMs c a (retry_after_header (net a))))]
      else [])"

text \<open>
  The invocations of the \<^verbatim>\<open>message\<close> handlers among all handler invocations, and
  the frames of a sequence that \<^verbatim>\<open>JSON.parse\<close> accepts.
\<close>

definition message_calls :: "(nat \<times> ws_event \<times> event_data) list \<Rightarrow> (nat \<times> ws_event \<times> event_data) list" where
  "message_calls cs = filter (\<lambda>c. fst (snd c) = EvMessage) cs"

definition parsed_frames :: "json option list \<Rightarrow> json list" where
  "parsed_frames frames = concat (map (\<lambda>f. case f of None \<Rightarrow> [] | Some m \<Rightarrow> [m]) frames)"

text \<open>
  The canonical compact JSON of \<^verbatim>\<open>{ type, timestamp, expiry_window, data }\<close>, written
  out: the four members in ascending key order, the payload canonicalized under
  \<^verbatim>\<open>data\<close>.
\<close>

definition signed_text :: "string \<Rightarrow> int \<Rightarrow> int \<Rightarrow> json props \<Rightarrow> string" where
  \<open>signed_text operation ts w data =
     ''{"data":'' @ createCompactJson (JObj data) @ '',"expiry_window":'' @ number_to_string w @
     '',"timestamp":'' @ number_to_string ts @ '',"type":'' @ JSON_quote operation @ ''}''\<close>

section \<open>An instance of the Ed25519 interface for evaluation\<close>

text \<open>
  The theorems below hold for every instance of the interface. To evaluate the SDK's
  functions on concrete inputs an instance is needed; this one is not Ed25519, it only
  has its shape: 32-byte keys, 64-byte signatures, and a signature verifies under the
  public key of the key that made it.
\<close>

definition toy_ed25519 :: ed25519 where
  "toy_ed25519 =
     \<lparr>ed_getPublicKey = (\<lambda>sk. if length sk = 32 then Some (rev sk) else None),
      ed_sign = (\<lambda>msg sk. if length sk = 32 then Some (rev sk @ take 32 (msg @ replicate 32 0))
                           else None),
      ed_verify = (\<lambda>sg msg pk. if length sg = 64 \<and> length pk = 32
                                then Some (take 32 sg = pk \<and> drop 32 sg = take 32 (msg @ replicate 32 0))
                                else None)\<rparr>"

text \<open>
  A client with the default expiry window, a 32-byte key and a configured account address;
  the signature the instance above makes on a text; and what the client's signed request
  hands to \<^verbatim>\<open>post\<close>.
\<close>

definition sample_client :: SignClient where
  "sample_client =
     SignClient_new (KeyBytes (replicate 32 1))
       (Some \<lparr>cfg_accountPublicKey = Some ''Acct'', cfg_agentWalletPublicKey = None,
               cfg_expiryWindow = None\<rparr>)"

definition sample_signature :: "string \<Rightarrow> string" where
  "sample_signature t =
     bs58_encode (rev (replicate 32 1) @ take 32 (utf8_encode t @ replicate 32 0))"

definition sample_call :: "int \<Rightarrow> string \<Rightarrow> string \<Rightarrow> json props \<Rightarrow> post_call" where
  "sample_call now endpoint operation data =
     \<lparr>pc_endpoint = endpoint,
      pc_body = [(''account'', JStr ''Acct''),
                 (''signature'',
                  JStr (sample_signature
                          (createCompactJson
                             (messagePayload operation
                                \<lparr>timestamp = now, expiry_window = Some 5000\<rparr> data)))),
                 (''timestamp'', JNum now), (''expiry_window'', JNum 5000)] @ own_props data,
      pc_headers = [(''Content-Type'', ''application/json'')]\<rparr>"

section \<open>Own properties of an object\<close>

lemma fst_update_existing:
  "map fst (map (\<lambda>p. if fst p = k then (k, v) else p) ps) = map fst ps"
  by (induction ps) auto

lemma map_of_update_existing:
  "map_of (map (\<lambda>p. if fst p = k then (k, v) else p) ps) k' =
     (if k' = k then (if k \<in> fst ` set ps then Some v else None) else map_of ps k')"
  by (induction ps) force+

lemma set_insert_index [simp]: "set (insert_index k v ps) = insert (k, v) (set ps)"
  by (induction ps) auto

lemma map_of_insert_index:
  "k \<notin> fst ` set ps \<Longrightarrow>
   map_of (insert_index k v ps) k' = (if k' = k then Some v else map_of ps k')"
  by (induction ps) (auto simp: image_iff)

lemma map_of_define_prop:
  "map_of (define_prop k v ps) k' = (if k' = k then Some v else map_of ps k')"
proof (cases "k \<in> fst ` set ps")
  case True
  then show ?thesis by (simp add: define_prop_def map_of_update_existing)
next
  case False
  then have "map_of ps k = None" by (simp add: map_of_eq_None_iff)
  then show ?thesis using False
    by (simp add: define_prop_def map_of_insert_index map_add_def split: option.splits)
qed

lemma keys_define_prop: "set (map fst (define_prop k v ps)) = insert k (set (map fst ps))"
proof (cases "k \<in> fst ` set ps")
  case True
  then show ?thesis
    unfolding define_prop_def by (simp only: fst_update_existing set_map if_True) auto
next
  case False
  then show ?thesis by (auto simp: define_prop_def)
qed

lemma distinct_insert_index:
  "k \<notin> fst ` set ps \<Longrightarrow> distinct (map fst ps) \<Longrightarrow> distinct (map fst (insert_index k v ps))"
  by (induction ps) (auto simp: image_iff)

lemma distinct_define_prop:
  "distinct (map fst ps) \<Longrightarrow> distinct (map fst (define_prop k v ps))"
proof (cases "k \<in> fst ` set ps")
  case True
  then show "distinct (map fst ps) \<Longrightarrow> distinct (map fst (define_prop k v ps))"
    unfolding define_prop_def by (simp only: fst_update_existing set_map if_True)
next
  case False
  then show "distinct (map fst ps) \<Longrightarrow> distinct (map fst (define_prop k v ps))"
    by (auto simp: define_prop_def distinct_insert_index)
qed

lemma distinct_foldl_define:
  "distinct (map fst acc) \<Longrightarrow>
   distinct (map fst (foldl (\<lambda>acc p. define_prop (fst p) (snd p) acc) acc ps))"
  by (induction ps arbitrary: acc) (simp_all add: distinct_define_prop)

lemma distinct_own_props: "distinct (map fst (own_props ps))"
  by (simp add: own_props_def distinct_foldl_define)

lemma map_of_foldl_define:
  "map_of (foldl (\<lambda>acc p. define_prop (fst p) (snd p) acc) acc ps) k =
     (case map_of (rev ps) k of Some v \<Rightarrow> Some v | None \<Rightarrow> map_of acc k)"
proof (induction ps arbitrary: acc)
  case Nil
  then show ?case by simp
next
  case (Cons p ps)
  show ?case
    by (simp add: Cons.IH map_of_define_prop map_add_def split: option.splits)
qed

lemma map_of_own_props: "map_of (own_props ps) k = map_of (rev ps) k"
  by (simp add: own_props_def map_of_foldl_define split: option.splits)

lemma map_of_rev_distinct: "distinct (map fst xs) \<Longrightarrow> map_of (rev xs) k = map_of xs k"
proof (induction xs)
  case Nil
  then show ?case by simp
next
  case (Cons x xs)
  then have IH: "map_of (rev xs) k = map_of xs k" and new: "fst x \<notin> fst ` set xs" by auto
  show ?case
  proof (cases "k = fst x")
    case True
    then have "map_of xs k = None" using new by (simp add: map_of_eq_None_iff)
    then show ?thesis using True IH by (simp add: map_add_def)
  next
    case False
    then show ?thesis using IH by (simp add: map_add_def split: option.splits)
  qed
qed

lemma member_flattened:
  "map_of (own_props (hs @ own_props data)) k =
     (case map_of (own_props data) k of Some v \<Rightarrow> Some v | None \<Rightarrow> map_of (own_props hs) k)"
  by (simp add: map_of_own_props map_add_def map_of_rev_distinct [OF distinct_own_props]
           split: option.splits)

section \<open>Properties of the canonicalizer\<close>

text \<open>
  Canonicalizing twice changes nothing, and two objects that give every key the same value
  have the same canonical text whatever the order of their members
  (\<open>sortJsonKeys_idempotent\<close>, \<open>createCompactJson_order_independent\<close> below).
\<close>

lemma sort_object_alt:
  "sort_object ps = foldl (assign_step (map_of (own_props ps))) [] (sort (map fst (own_props ps)))"
  by (simp add: sort_object_def Let_def)

lemma keys_own_props: "set (map fst (own_props ps)) = fst ` set ps"
proof -
  have "set (map fst (foldl (\<lambda>acc p. define_prop (fst p) (snd p) acc) acc ps)) =
          set (map fst acc) \<union> fst ` set ps" for acc
    by (induction ps arbitrary: acc) (auto simp: keys_define_prop simp del: set_map)
  then show ?thesis by (simp add: own_props_def)
qed

lemma map_of_assign_step:
  "map_of (assign_step m acc key) k =
     (if key = k \<and> key \<noteq> ''__proto__'' \<and> m key \<noteq> None then m key else map_of acc k)"
  by (auto simp: assign_step_def assign_prop_def map_of_define_prop split: option.splits)

lemma keys_assign_step:
  "set (map fst (assign_step m acc key)) =
     set (map fst acc) \<union> (if key \<noteq> ''__proto__'' \<and> m key \<noteq> None then {key} else {})"
  by (auto simp: assign_step_def assign_prop_def keys_define_prop simp del: set_map split: option.splits)

lemma distinct_assign_step:
  "distinct (map fst acc) \<Longrightarrow> distinct (map fst (assign_step m acc key))"
  by (auto simp: assign_step_def assign_prop_def distinct_define_prop split: option.splits)

lemma map_of_build:
  "map_of (foldl (assign_step m) acc ks) k =
     (if k \<in> set ks \<and> k \<noteq> ''__proto__'' \<and> m k \<noteq> None then m k else map_of acc k)"
  by (induction ks arbitrary: acc) (auto simp: map_of_assign_step)

lemma keys_build:
  "set (map fst (foldl (assign_step m) acc ks)) =
     set (map fst acc) \<union> {k \<in> set ks. k \<noteq> ''__proto__'' \<and> m k \<noteq> None}"
  by (induction ks arbitrary: acc) (auto simp: keys_assign_step simp del: set_map)

lemma distinct_build:
  "distinct (map fst acc) \<Longrightarrow> distinct (map fst (foldl (assign_step m) acc ks))"
  by (induction ks arbitrary: acc) (simp_all add: distinct_assign_step)

lemma build_cong:
  "\<forall>k \<in> set ks. k \<noteq> ''__proto__'' \<longrightarrow> m k = m' k \<Longrightarrow>
   foldl (assign_step m) acc ks = foldl (assign_step m') acc (filter (\<lambda>k. k \<noteq> ''__proto__'') ks)"
proof (induction ks arbitrary: acc)
  case Nil
  then show ?case by simp
next
  case (Cons k ks)
  have step: "k \<noteq> ''__proto__'' \<Longrightarrow> assign_step m acc k = assign_step m' acc k"
    using Cons.prems by (simp add: assign_step_def)
  have skip: "assign_step m acc ''__proto__'' = acc"
    by (simp add: assign_step_def assign_prop_def split: option.splits)
  show ?case using Cons step skip by (cases "k = ''__proto__''") auto
qed

lemma sort_distinct_set:
  "distinct xs \<Longrightarrow> distinct ys \<Longrightarrow> set xs = set ys \<Longrightarrow> sort xs = sort (ys :: string list)"
  by (intro sorted_distinct_set_unique) simp_all

text \<open>
  The canonical form of an object depends only on which value each key has, not on the
  order in which the members were defined.
\<close>

lemma sort_object_order_independent:
  assumes "map_of (rev ps) = map_of (rev qs)"
  shows "sort_object ps = sort_object qs"
proof -
  have m: "map_of (own_props ps) = map_of (own_props qs)"
    using assms by (intro ext) (simp add: map_of_own_props)
  have "fst ` set ps = dom (map_of (rev ps))" by (simp add: dom_map_of_conv_image_fst)
  also have "\<dots> = fst ` set qs" using assms by (simp add: dom_map_of_conv_image_fst)
  finally have "set (map fst (own_props ps)) = set (map fst (own_props qs))"
    by (simp only: keys_own_props)
  then have "sort (map fst (own_props ps)) = sort (map fst (own_props qs))"
    by (intro sort_distinct_set distinct_own_props)
  then show ?thesis by (simp add: sort_object_alt m)
qed

lemma sort_object_fixpoint: "sort_object (sort_object ps) = sort_object ps"
proof -
  let ?m = "map_of (own_props ps)"
  let ?ks = "sort (map fst (own_props ps))"
  let ?R = "sort_object ps"
  have R: "?R = foldl (assign_step ?m) [] ?ks" by (rule sort_object_alt)
  have present: "k \<in> set ?ks \<Longrightarrow> ?m k \<noteq> None" for k
    by (simp add: map_of_eq_None_iff)
  have dR: "distinct (map fst ?R)" unfolding R by (rule distinct_build) simp
  have kR: "set (map fst ?R) = set (filter (\<lambda>k. k \<noteq> ''__proto__'') ?ks)"
    unfolding R keys_build using present by auto
  have mR: "map_of (own_props ?R) k = ?m k" if "k \<in> set ?ks" "k \<noteq> ''__proto__''" for k
  proof -
    have "map_of (own_props ?R) k = map_of ?R k"
      by (simp add: map_of_own_props map_of_rev_distinct [OF dR])
    also have "\<dots> = ?m k" unfolding R map_of_build using that present by simp
    finally show ?thesis .
  qed
  have "sort (map fst (own_props ?R)) = sort (filter (\<lambda>k. k \<noteq> ''__proto__'') ?ks)"
  proof (rule sort_distinct_set)
    show "distinct (map fst (own_props ?R))" by (rule distinct_own_props)
    show "distinct (filter (\<lambda>k. k \<noteq> ''__proto__'') ?ks)"
      using distinct_own_props [of ps] by (simp add: distinct_map)
    show "set (map fst (own_props ?R)) = set (filter (\<lambda>k. k \<noteq> ''__proto__'') ?ks)"
      using kR keys_own_props [of ?R] by simp
  qed
  also have "\<dots> = filter (\<lambda>k. k \<noteq> ''__proto__'') ?ks"
    by (simp add: filter_sort [symmetric] sorted_sort_id sorted_filter [where f = "\<lambda>x. x", simplified])
  finally have ks: "sort (map fst (own_props ?R)) = filter (\<lambda>k. k \<noteq> ''__proto__'') ?ks" .
  have "sort_object ?R = foldl (assign_step (map_of (own_props ?R))) [] (filter (\<lambda>k. k \<noteq> ''__proto__'') ?ks)"
    by (simp add: sort_object_alt [of ?R] ks)
  also have "\<dots> = foldl (assign_step ?m) [] ?ks"
    using mR by (intro build_cong [symmetric]) simp
  finally show ?thesis using R by simp
qed


lemma map_of_map_values:
  "map_of (map (\<lambda>p. (fst p, f (snd p))) xs) k = map_option f (map_of xs k)"
  by (induction xs) auto

lemma sort_object_members:
  assumes "p \<in> set (sort_object ps)"
  shows "p \<in> set ps"
proof -
  let ?m = "map_of (own_props ps)"
  have d: "distinct (map fst (sort_object ps))"
    unfolding sort_object_alt by (rule distinct_build) simp
  have "map_of (sort_object ps) (fst p) = Some (snd p)"
    using assms d by (intro map_of_is_SomeI) simp_all
  then have "?m (fst p) = Some (snd p)"
    unfolding sort_object_alt map_of_build by (simp split: if_splits)
  then have "map_of (rev ps) (fst p) = Some (snd p)" by (simp add: map_of_own_props)
  then have "(fst p, snd p) \<in> set (rev ps)" by (rule map_of_SomeD)
  then show ?thesis by simp
qed

lemma sortJsonKeys_idempotent: "sortJsonKeys (sortJsonKeys v) = sortJsonKeys v"
proof (induction v)
  case (JArr xs)
  then show ?case by (simp add: map_idI)
next
  case (JObj ps)
  let ?f = "\<lambda>p. (fst p, sortJsonKeys (snd p))"
  let ?R = "sort_object (map ?f ps)"
  have "?f p = p" if "p \<in> set ?R" for p
  proof -
    from that have "p \<in> set (map ?f ps)" by (rule sort_object_members)
    then obtain q where q: "q \<in> set ps" "p = ?f q" by auto
    have "sortJsonKeys (sortJsonKeys (snd q)) = sortJsonKeys (snd q)"
      using JObj q(1) by (cases q) auto
    then show ?thesis using q(2) by simp
  qed
  then have "map ?f ?R = ?R" by (intro map_idI) simp
  then show ?case by (simp add: sort_object_fixpoint)
qed simp_all

lemma createCompactJson_idempotent:
  "createCompactJson (sortJsonKeys v) = createCompactJson v"
  by (simp add: createCompactJson_def sortJsonKeys_idempotent)

lemma createCompactJson_order_independent:
  assumes "map_of (rev ps) = map_of (rev qs)"
  shows "createCompactJson (JObj ps) = createCompactJson (JObj qs)"
proof -
  let ?f = "\<lambda>p. (fst p, sortJsonKeys (snd p))"
  have "map_of (rev (map ?f ps)) k = map_of (rev (map ?f qs)) k" for k
    using assms by (simp add: rev_map map_of_map_values)
  then have "sort_object (map ?f ps) = sort_object (map ?f qs)"
    by (intro sort_object_order_independent ext)
  then show ?thesis by (simp add: createCompactJson_def)
qed

text \<open>
  The two examples of the specification: the members of \<^verbatim>\<open>{z:1,a:2,m:3}\<close> come out
  in the order \<^verbatim>\<open>a,m,z\<close>, and \<^verbatim>\<open>{a:1,b:2}\<close> gives the text
  \<^verbatim>\<open>{"a":1,"b":2}\<close>.
\<close>

lemma createCompactJson_examples:
  \<open>createCompactJson (JObj [(''z'', JNum 1), (''a'', JNum 2), (''m'', JNum 3)]) = ''{"a":2,"m":3,"z":1}'' \<and>
   createCompactJson (JObj [(''a'', JNum 1), (''b'', JNum 2)]) = ''{"a":1,"b":2}''\<close>
  by code_simp

text \<open>
  C2. The claim says that map keys are emitted in strictly ascending lexicographic order.
  On the object \<^verbatim>\<open>{"10": 1, "9": 2}\<close> the key \<^verbatim>\<open>"10"\<close> is lexicographically
  smaller than \<^verbatim>\<open>"9"\<close>, and \<^verbatim>\<open>Object.keys(obj).sort()\<close> does put it first; but
  both keys are array indices, so the object \<^verbatim>\<open>sorted\<close> enumerates them in numeric
  order and the text that is signed has \<^verbatim>\<open>"9"\<close> before \<^verbatim>\<open>"10"\<close>.
\<close>

theorem createCompactJson_index_keys_numeric_order:
  \<open>createCompactJson (JObj [(''10'', JNum 1), (''9'', JNum 2)]) = ''{"9":2,"10":1}'' \<and>
   sort [''10'', ''9''] = [''10'', ''9'']\<close>
  by code_simp

section \<open>Properties of the key resolver\<close>

lemma length_trim: "length (trim s) \<le> length s"
proof -
  have "length (trim s) = length (dropWhile is_space (rev (dropWhile is_space s)))"
    by (simp add: trim_def)
  also have "\<dots> \<le> length (rev (dropWhile is_space s))" by (rule length_dropWhile_le)
  also have "\<dots> \<le> length s" by (simp add: length_dropWhile_le)
  finally show ?thesis .
qed

lemma length_hex_encode: "length (hex_encode bs) = 2 * length bs"
  by (induction bs) (simp_all add: hex_encode_def)

text \<open>
  The hexadecimal attempt is never made on the 64-character hexadecimal encoding of a
  32-byte secret: it is made on 128 or 130 characters only.
\<close>

lemma hex_attempt_not_on_hex64:
  assumes "length sk = 32"
  shows "hex_attempt ed (trim (hex_encode sk)) = None"
proof -
  have "length (trim (hex_encode sk)) \<le> 64"
    using length_trim [of "hex_encode sk"] assms by (simp add: length_hex_encode)
  then show ?thesis by (simp add: hex_attempt_def)
qed

text \<open>
  C4. The claim says that the 64-character hexadecimal encoding of a 32-byte secret
  resolves to a keypair. For the secret of 32 zero bytes the encoding is 64 characters
  \<^verbatim>\<open>0\<close>: the hexadecimal attempt is made only on 128 (or, with \<^verbatim>\<open>0x\<close>, 130)
  characters, \<^verbatim>\<open>0\<close> is not a base-58 character, and the base-64 decoding has 48
  bytes, so the resolution fails, whatever the Ed25519 primitive is.
\<close>

theorem generateKeypair_hex64_fails:
  "hex_encode (replicate 32 0) = ''0000000000000000000000000000000000000000000000000000000000000000'' \<and>
   generateKeypair ed (KeyString (hex_encode (replicate 32 0))) = Inl InvalidKeyFormat"
  by code_simp

lemma char_eq_nat: "(c = d) = ((of_char c :: nat) = of_char d)"
  by simp

lemma base58_class_alphabet: "base58_class c \<Longrightarrow> c \<in> set b58_alphabet"
proof -
  have r1: "CHR ''1'' \<le> c \<Longrightarrow> c \<le> CHR ''9'' \<Longrightarrow> c \<in> set ''123456789''"
    unfolding less_eq_char_def by (simp add: char_eq_nat) arith
  have r2: "CHR ''A'' \<le> c \<Longrightarrow> c \<le> CHR ''H'' \<Longrightarrow> c \<in> set ''ABCDEFGH''"
    unfolding less_eq_char_def by (simp add: char_eq_nat) arith
  have r3: "CHR ''J'' \<le> c \<Longrightarrow> c \<le> CHR ''N'' \<Longrightarrow> c \<in> set ''JKLMN''"
    unfolding less_eq_char_def by (simp add: char_eq_nat) arith
  have r4: "CHR ''P'' \<le> c \<Longrightarrow> c \<le> CHR ''Z'' \<Longrightarrow> c \<in> set ''PQRSTUVWXYZ''"
    unfolding less_eq_char_def by (simp add: char_eq_nat) arith
  have r5: "CHR ''a'' \<le> c \<Longrightarrow> c \<le> CHR ''k'' \<Longrightarrow> c \<in> set ''abcdefghijk''"
    unfolding less_eq_char_def by (simp add: char_eq_nat) arith
  have r6: "CHR ''m'' \<le> c \<Longrightarrow> c \<le> CHR ''z'' \<Longrightarrow> c \<in> set ''mnopqrstuvwxyz''"
    unfolding less_eq_char_def by (simp add: char_eq_nat) arith
  have "set b58_alphabet = set ''123456789'' \<union> set ''ABCDEFGH'' \<union> set ''JKLMN'' \<union>
          set ''PQRSTUVWXYZ'' \<union> set ''abcdefghijk'' \<union> set ''mnopqrstuvwxyz''"
    unfolding b58_alphabet_def by (simp only: set_append [symmetric] append.simps)
  then show "base58_class c \<Longrightarrow> c \<in> set b58_alphabet"
    unfolding base58_class_def using r1 r2 r3 r4 r5 r6 by blast
qed

lemma base58Regex_decodes:
  "base58Regex s \<Longrightarrow> bs58_decode s \<noteq> None"
  by (auto simp: base58Regex_def bs58_decode_def list_all_iff dest: base58_class_alphabet)

text \<open>
  C3 (as amended). The statement is about the strings that do not have the length of a
  hexadecimal key: the trimmed text has neither 64 nor 128 characters, nor 66 or 130
  characters with the prefix \<^verbatim>\<open>0x\<close>. On such a string resolution tries two
  decodings in a fixed order and returns the keypair of the first one accepted. When the
  trimmed text consists of base-58 characters only, the base-58 decoding is accepted
  whenever it has at least 32 bytes, and its leading 32 bytes are the secret key: the
  32-byte and the 64-byte forms are accepted, and so is every other length above 32.
  Then the base-64 decoding is accepted when it has exactly 32 bytes. When neither is
  accepted, resolution fails with the invalid-key-format error.
\<close>

theorem generateKeypair_string_resolution:
  assumes "k = trim s"
    and "length k \<noteq> 64" and "length k \<noteq> 128"
    and "\<not> (startsWith k ''0x'' \<and> (length k = 66 \<or> length k = 130))"
  shows "generateKeypair ed (KeyString s) =
     (let b58Bytes = (case bs58_decode k of Some d \<Rightarrow> d | None \<Rightarrow> []);
          b64Bytes = base64_decode k
      in if base58Regex k \<and> 32 \<le> length b58Bytes \<and>
            ed_getPublicKey ed (take 32 b58Bytes) \<noteq> None
         then Inr \<lparr>publicKey = the (ed_getPublicKey ed (take 32 b58Bytes)),
                   privateKey = take 32 b58Bytes\<rparr>
         else if length b64Bytes = 32 \<and> ed_getPublicKey ed b64Bytes \<noteq> None
         then Inr \<lparr>publicKey = the (ed_getPublicKey ed b64Bytes), privateKey = b64Bytes\<rparr>
         else Inl InvalidKeyFormat)"
proof -
  define b58Bytes where "b58Bytes = (case bs58_decode k of Some d \<Rightarrow> d | None \<Rightarrow> [])"
  have hex: "hex_attempt ed k = None"
    using assms(2-4) by (auto simp: hex_attempt_def)
  have b58: "base58_attempt ed k =
      (if base58Regex k \<and> 32 \<le> length b58Bytes \<and> ed_getPublicKey ed (take 32 b58Bytes) \<noteq> None
       then Some \<lparr>publicKey = the (ed_getPublicKey ed (take 32 b58Bytes)),
                  privateKey = take 32 b58Bytes\<rparr>
       else None)"
  proof (cases "base58Regex k")
    case False
    then show ?thesis by (simp add: base58_attempt_def)
  next
    case True
    then obtain d where d: "bs58_decode k = Some d" using base58Regex_decodes by blast
    then have "b58Bytes = d" by (simp add: b58Bytes_def)
    then show ?thesis using True d
      by (auto simp: base58_attempt_def derive_def split: option.splits)
  qed
  have b64: "base64_attempt ed k =
      (if length (base64_decode k) = 32 \<and> ed_getPublicKey ed (base64_decode k) \<noteq> None
       then Some \<lparr>publicKey = the (ed_getPublicKey ed (base64_decode k)),
                  privateKey = base64_decode k\<rparr>
       else None)"
    by (auto simp: base64_attempt_def derive_def split: option.splits)
  define B where "B \<longleftrightarrow> base58Regex k \<and> 32 \<le> length b58Bytes \<and>
          ed_getPublicKey ed (take 32 b58Bytes) \<noteq> None"
  define C where "C \<longleftrightarrow> length (base64_decode k) = 32 \<and>
          ed_getPublicKey ed (base64_decode k) \<noteq> None"
  have "generateKeypair ed (KeyString s) =
          (if B then Inr \<lparr>publicKey = the (ed_getPublicKey ed (take 32 b58Bytes)),
                         privateKey = take 32 b58Bytes\<rparr>
           else if C then Inr \<lparr>publicKey = the (ed_getPublicKey ed (base64_decode k)),
                              privateKey = base64_decode k\<rparr>
           else Inl InvalidKeyFormat)"
    unfolding generateKeypair_def key_input.case Let_def assms(1) [symmetric]
      hex b58 b64 B_def [symmetric] C_def [symmetric]
    by (cases B; cases C) simp_all
  then show ?thesis
    unfolding Let_def b58Bytes_def [symmetric] B_def C_def .
qed

text \<open>
  The theorem at the base-58 text of 32 zero bytes (32 characters \<^verbatim>\<open>1\<close>), and at
  the base-64 text of 32 zero bytes, which contains \<^verbatim>\<open>=\<close> and so is not tried as
  base-58.
\<close>

theorem generateKeypair_string_resolution_witness:
  "generateKeypair toy_ed25519 (KeyString ''11111111111111111111111111111111'') =
     Inr \<lparr>publicKey = replicate 32 0, privateKey = replicate 32 0\<rparr> \<and>
   generateKeypair toy_ed25519 (KeyString ''AAAAAAAAAAAAAAAAAAAAAAAAAAAAAAAAAAAAAAAAAAA='') =
     Inr \<lparr>publicKey = replicate 32 0, privateKey = replicate 32 0\<rparr>"
  using generateKeypair_string_resolution
          [of "''11111111111111111111111111111111''" "''11111111111111111111111111111111''"
              toy_ed25519]
        generateKeypair_string_resolution
          [of "''AAAAAAAAAAAAAAAAAAAAAAAAAAAAAAAAAAAAAAAAAAA=''"
              "''AAAAAAAAAAAAAAAAAAAAAAAAAAAAAAAAAAAAAAAAAAA=''" toy_ed25519]
  by code_simp

text \<open>
  C3 as stated fails: 33 characters \<^verbatim>\<open>1\<close> are the base-58 form of 33 zero bytes,
  neither 32 nor 64 bytes long, yet the decoding is accepted and its leading 32 bytes
  become the secret key. (Under the claim the text would go on to the base-64 attempt,
  which yields 24 bytes, and resolution would fail.)
\<close>

theorem generateKeypair_accepts_33_byte_base58:
  "bs58_decode ''111111111111111111111111111111111'' = Some (replicate 33 0) \<and>
   length (base64_decode ''111111111111111111111111111111111'') = 24 \<and>
   generateKeypair toy_ed25519 (KeyString ''111111111111111111111111111111111'') =
     Inr \<lparr>publicKey = replicate 32 0, privateKey = replicate 32 0\<rparr>"
  by code_simp

section \<open>Properties of signing and verification\<close>

lemma length_hex_decode: "2 * length (hex_decode s) \<le> length s"
  by (induction s rule: hex_decode.induct) (auto split: option.splits)

lemma length_b58_digits: "n < 58 ^ k \<Longrightarrow> length (b58_digits n) \<le> k"
proof (induction k arbitrary: n)
  case 0
  then show ?case by (subst b58_digits.simps) simp
next
  case (Suc k)
  show ?case
  proof (cases "n \<le> 0")
    case True
    then show ?thesis by (subst b58_digits.simps) simp
  next
    case False
    have "n div 58 < 58 ^ k" using Suc.prems by simp
    then have "length (b58_digits (n div 58)) \<le> k" by (rule Suc.IH)
    then show ?thesis using False by (subst b58_digits.simps) simp
  qed
qed

lemma foldl_bytes_bound:
  "0 \<le> acc \<Longrightarrow> foldl (\<lambda>n b. 256 * n + uint b) acc (bs :: byte list) < (acc + 1) * 256 ^ length bs"
proof (induction bs arbitrary: acc)
  case Nil
  then show ?case by simp
next
  case (Cons b bs)
  have b: "0 \<le> uint b" "uint b < 256" using uint_lt2p [of b] by simp_all
  have "foldl (\<lambda>n b. 256 * n + uint b) (256 * acc + uint b) bs < (256 * acc + uint b + 1) * 256 ^ length bs"
    using Cons.prems b by (intro Cons.IH) simp
  also have "\<dots> \<le> (256 * (acc + 1)) * 256 ^ length bs"
    using b by (intro mult_right_mono) simp_all
  finally show ?case by (simp add: algebra_simps)
qed

lemma int_of_bytes_bound: "int_of_bytes bs < 256 ^ length bs"
  using foldl_bytes_bound [of 0 bs] by (simp add: int_of_bytes_def)

lemma foldl_zero_bytes: "foldl (\<lambda>n b. 256 * n + uint b) 0 (replicate z (0 :: byte)) = 0"
  by (induction z) simp_all

lemma int_of_bytes_leading_zeros:
  "int_of_bytes bs = int_of_bytes (dropWhile (\<lambda>b. b = 0) bs)"
proof -
  have tw: "takeWhile (\<lambda>b. b = 0) bs = replicate (length (takeWhile (\<lambda>b. b = 0) bs)) 0"
    by (induction bs) auto
  have "int_of_bytes bs = int_of_bytes (takeWhile (\<lambda>b. b = 0) bs @ dropWhile (\<lambda>b. b = 0) bs)"
    by simp
  also have "\<dots> = foldl (\<lambda>n b. 256 * n + uint b)
                      (foldl (\<lambda>n b. 256 * n + uint b) 0 (takeWhile (\<lambda>b. b = 0) bs))
                      (dropWhile (\<lambda>b. b = 0) bs)"
    unfolding int_of_bytes_def by (simp only: foldl_append)
  also have "\<dots> = int_of_bytes (dropWhile (\<lambda>b. b = 0) bs)"
    using tw foldl_zero_bytes [of "length (takeWhile (\<lambda>b. b = 0) bs)"]
    by (simp add: int_of_bytes_def)
  finally show ?thesis .
qed

lemma length_bs58_encode_64:
  assumes "length bs = 64"
  shows "length (bs58_encode bs) \<le> 127"
proof -
  let ?z = "length (takeWhile (\<lambda>b. b = 0) bs)"
  let ?rest = "dropWhile (\<lambda>b. b = 0) bs"
  have "?z + length ?rest = length bs"
    by (metis length_append takeWhile_dropWhile_id)
  then have len: "length ?rest = 64 - ?z" and z: "?z \<le> 64"
    using assms by simp_all
  have n: "int_of_bytes bs < 256 ^ (64 - ?z)"
    using int_of_bytes_bound [of ?rest] int_of_bytes_leading_zeros [of bs] len by simp
  show ?thesis
  proof (cases "?z = 0")
    case True
    have "(256::int) ^ 64 \<le> 58 ^ 127" by simp
    then have "int_of_bytes bs < 58 ^ 127" using n True by simp
    then have "length (b58_digits (int_of_bytes bs)) \<le> 127" by (rule length_b58_digits)
    then show ?thesis using True by (simp add: bs58_encode_def)
  next
    case False
    have "(256::int) ^ (64 - ?z) \<le> (58 ^ 2) ^ (64 - ?z)" by (intro power_mono) simp_all
    then have "int_of_bytes bs < 58 ^ (2 * (64 - ?z))" using n by (simp add: power_mult)
    then have "length (b58_digits (int_of_bytes bs)) \<le> 2 * (64 - ?z)" by (rule length_b58_digits)
    moreover have "length (bs58_encode bs) = ?z + length (b58_digits (int_of_bytes bs))"
      by (simp add: bs58_encode_def)
    ultimately show ?thesis using False z by arith
  qed
qed

lemma hex_decode_bs58_short:
  assumes "length sg = 64"
  shows "length (hex_decode (bs58_encode sg)) < 64"
  using length_bs58_encode_64 [OF assms] length_hex_decode [of "bs58_encode sg"] by simp

text \<open>
  C5. The claim says that a signature made by \<^verbatim>\<open>signMessage\<close> verifies with
  \<^verbatim>\<open>verifySignature\<close>. \<^verbatim>\<open>signMessage\<close> returns the base-58 text of the 64
  signature bytes, at most 127 characters; \<^verbatim>\<open>verifySignature\<close> decodes its argument
  as hexadecimal, which gives fewer than 64 bytes. So for every message and key, with any
  primitive whose signatures are 64 bytes long and whose verification accepts no shorter
  signature, \<^verbatim>\<open>verifySignature\<close> returns false on the output of \<^verbatim>\<open>signMessage\<close>.
\<close>

theorem verifySignature_rejects_signMessage:
  assumes "ed_sign ed (utf8_encode message) sk = Some sg"
      and "length sg = 64"
      and "\<forall>s pk. length s < 64 \<longrightarrow> ed_verify ed s (utf8_encode message) pk \<noteq> Some True"
  shows "signMessage ed message sk = Inr (bs58_encode sg) \<and>
         length (hex_decode (bs58_encode sg)) < 64 \<and>
         verifySignature ed message (bs58_encode sg) publicKeyText = False"
proof -
  have short: "length (hex_decode (bs58_encode sg)) < 64"
    using assms(2) by (rule hex_decode_bs58_short)
  have "ed_verify ed (hex_decode (bs58_encode sg)) (utf8_encode message) pk \<noteq> Some True" for pk
    using assms(3) short by blast
  then have "verifySignature ed message (bs58_encode sg) publicKeyText = False"
    by (auto simp: verifySignature_def Let_def split: option.splits)
  then show ?thesis using assms(1) short by (simp add: signMessage_def)
qed

theorem verifySignature_rejects_signMessage_witness:
  "signMessage toy_ed25519 ''test message'' (replicate 32 1) =
     Inr (bs58_encode (rev (replicate 32 1) @ take 32 (utf8_encode ''test message'' @ replicate 32 0))) \<and>
   ed_verify toy_ed25519
     (rev (replicate 32 1) @ take 32 (utf8_encode ''test message'' @ replicate 32 0))
     (utf8_encode ''test message'') (rev (replicate 32 1)) = Some True \<and>
   verifySignature toy_ed25519 ''test message''
     (bs58_encode (rev (replicate 32 1) @ take 32 (utf8_encode ''test message'' @ replicate 32 0)))
     (publicKeyToHex (rev (replicate 32 1))) = False"
proof -
  let ?sg = "rev (replicate 32 1) @ take 32 (utf8_encode ''test message'' @ replicate 32 0) :: byte list"
  have h1: "ed_sign toy_ed25519 (utf8_encode ''test message'') (replicate 32 1) = Some ?sg"
    by (simp add: toy_ed25519_def)
  have h2: "length ?sg = 64" by simp
  have h3: "\<forall>s pk. length s < 64 \<longrightarrow>
              ed_verify toy_ed25519 s (utf8_encode ''test message'') pk \<noteq> Some True"
    by (simp add: toy_ed25519_def)
  have h4: "ed_verify toy_ed25519 ?sg (utf8_encode ''test message'') (rev (replicate 32 1)) = Some True"
    by (simp add: toy_ed25519_def)
  show ?thesis
    using verifySignature_rejects_signMessage
            [OF h1 h2 h3, of "publicKeyToHex (rev (replicate 32 1))"] h4
    by simp
qed

section \<open>Properties of the HTTP transport\<close>

lemma attempts_simps [simp]:
  "attempts [] = 0"
  "attempts (tr @ tr') = attempts tr + attempts tr'"
  "attempts (Fetch k # tr) = Suc (attempts tr)"
  "attempts (Sleep ms # tr) = attempts tr"
  by (simp_all add: attempts_def)

lemma try_block_429:
  "try_block c a (Response 429 h b) ls = (Inl (RateLimitThrown (retryAfterMs c a h)), Some 429)"
  by (simp add: try_block_def)

lemma try_block_5xx:
  "500 \<le> s \<Longrightarrow> try_block c a (Response s h b) ls = (Inl (APIThrown s), Some s)"
  by (simp add: try_block_def)

lemma try_block_4xx:
  "400 \<le> s \<Longrightarrow> s < 500 \<Longrightarrow> s \<noteq> 429 \<Longrightarrow>
   try_block c a (Response s h b) ls = (Inl (APIThrown s), Some s)"
  by (simp add: try_block_def)

text \<open>
  When every response is a 5xx or a 429, the loop started at attempt \<open>a\<close> runs every
  attempt up to the last one and ends with the error of the last response.
\<close>

lemma get_loop_all_retryable:
  assumes st: "\<forall>k. 500 \<le> st k \<or> st k = 429"
  shows "0 \<le> a \<Longrightarrow> a \<le> retryAttempts c \<Longrightarrow>
         \<exists>tr'. get_loop c (\<lambda>k. Response (st k) (hdr k) (body k)) a le ls tr =
                 (Inl (if st (retryAttempts c) = 429
                       then RateLimitError (retryAfterMs c (retryAttempts c) (hdr (retryAttempts c)))
                       else APIError (st (retryAttempts c))), tr') \<and>
               attempts tr' = attempts tr + nat (retryAttempts c - a + 1)"
proof (induction "nat (retryAttempts c - a)" arbitrary: a le ls tr)
  case 0
  then have a: "a = retryAttempts c" by simp
  from st have "500 \<le> st a \<or> st a = 429" by blast
  then show ?case
  proof
    assume "500 \<le> st a"
    then show ?thesis using a
      by (subst get_loop.simps)
         (auto simp: try_block_5xx catch_block_def isRetryableError_def status_truthy_def Let_def)
  next
    assume "st a = 429"
    then show ?thesis using a
      by (subst get_loop.simps)
         (auto simp: try_block_429 catch_block_def isRetryableError_def status_truthy_def Let_def)
  qed
next
  case (Suc n)
  then have lt: "a < retryAttempts c" and n: "n = nat (retryAttempts c - (a + 1))"
    and a0: "0 \<le> a + 1" and a1: "a + 1 \<le> retryAttempts c" by auto
  note IH = Suc.hyps(1) [OF n a0 a1]
  let ?tr2 = "(if 0 < a then tr @ [Sleep (backoff c (a - 1))] else tr) @ [Fetch a]"
  let ?final = "Inl (if st (retryAttempts c) = 429
                     then RateLimitError (retryAfterMs c (retryAttempts c) (hdr (retryAttempts c)))
                     else APIError (st (retryAttempts c)))"
  from st have "500 \<le> st a \<or> st a = 429" by blast
  then show ?case
  proof
    assume s: "500 \<le> st a"
    obtain tr' where
      "get_loop c (\<lambda>k. Response (st k) (hdr k) (body k)) (a + 1) (Some (APIThrown (st a)))
          (Some (st a)) ?tr2 = (?final, tr')"
      and "attempts tr' = attempts ?tr2 + nat (retryAttempts c - (a + 1) + 1)"
      using IH by blast
    then show ?thesis using s lt Suc.prems
      by (subst get_loop.simps)
         (auto simp: try_block_5xx catch_block_def isRetryableError_def status_truthy_def Let_def
               nat_add_distrib)
  next
    assume s: "st a = 429"
    let ?ms = "rate_limit_sleep c a (retryAfterMs c a (hdr a))"
    obtain tr' where
      "get_loop c (\<lambda>k. Response (st k) (hdr k) (body k)) (a + 1)
          (Some (RateLimitThrown (retryAfterMs c a (hdr a)))) (Some 429) (?tr2 @ [Sleep ?ms]) =
        (?final, tr')"
      and "attempts tr' = attempts (?tr2 @ [Sleep ?ms]) + nat (retryAttempts c - (a + 1) + 1)"
      using IH by blast
    then show ?thesis using s lt Suc.prems
      by (subst get_loop.simps) (auto simp: try_block_429 catch_block_def Let_def nat_add_distrib)
  qed
qed

lemma get_4xx:
  assumes "0 \<le> retryAttempts c" "400 \<le> s" "s < 500" "s \<noteq> 429" "net 0 = Response s h b"
  shows "get c net = (Inl (APIError s), [Fetch 0])"
  using assms unfolding get_def
  by (subst get_loop.simps)
     (auto simp: try_block_4xx catch_block_def isRetryableError_def status_truthy_def Let_def)

text \<open>
  C6. With \<open>N = retryAttempts\<close> retries configured (\<open>N \<ge> 0\<close>; 3 when the configuration
  gives none), a request whose every response is a 5xx or a 429 makes exactly \<open>N + 1\<close>
  fetches and then throws the error of the last response: the APIError with its status,
  or the RateLimitError. A request whose first response is a 4xx other than 429 makes
  exactly one fetch, sleeps never, and throws the APIError with that status.
\<close>

theorem get_bounded_classified_retry:
  assumes "0 \<le> retryAttempts c"
  shows "((\<forall>k. 500 \<le> st k \<or> st k = 429) \<longrightarrow>
            attempts (snd (get c (\<lambda>k. Response (st k) (hdr k) (body k)))) = nat (retryAttempts c) + 1 \<and>
            fst (get c (\<lambda>k. Response (st k) (hdr k) (body k))) =
              Inl (if st (retryAttempts c) = 429
                   then RateLimitError (retryAfterMs c (retryAttempts c) (hdr (retryAttempts c)))
                   else APIError (st (retryAttempts c)))) \<and>
         (400 \<le> s \<and> s < 500 \<and> s \<noteq> 429 \<and> net 0 = Response s h b \<longrightarrow>
            get c net = (Inl (APIError s), [Fetch 0])) \<and>
         retryAttempts (BaseClient_new None d) = 3"
proof (intro conjI impI)
  assume st: "\<forall>k. 500 \<le> st k \<or> st k = 429"
  obtain tr' where
    g: "get c (\<lambda>k. Response (st k) (hdr k) (body k)) =
          (Inl (if st (retryAttempts c) = 429
                then RateLimitError (retryAfterMs c (retryAttempts c) (hdr (retryAttempts c)))
                else APIError (st (retryAttempts c))), tr')"
    and n: "attempts tr' = attempts [] + nat (retryAttempts c - 0 + 1)"
    using get_loop_all_retryable [OF st, of 0 c hdr body None None "[]"] assms
    unfolding get_def by auto
  show "attempts (snd (get c (\<lambda>k. Response (st k) (hdr k) (body k)))) = nat (retryAttempts c) + 1"
    using g n assms by (simp add: nat_add_distrib)
  show "fst (get c (\<lambda>k. Response (st k) (hdr k) (body k))) =
          Inl (if st (retryAttempts c) = 429
               then RateLimitError (retryAfterMs c (retryAttempts c) (hdr (retryAttempts c)))
               else APIError (st (retryAttempts c)))"
    using g by simp
next
  assume "400 \<le> s \<and> s < 500 \<and> s \<noteq> 429 \<and> net 0 = Response s h b"
  then show "get c net = (Inl (APIError s), [Fetch 0])"
    using get_4xx [of c s net h b] assms by simp
next
  show "retryAttempts (BaseClient_new None d) = 3"
    by (simp add: BaseClient_new_def)
qed

theorem get_bounded_classified_retry_witness:
  "attempts (snd (get (BaseClient_new None None)
                    (\<lambda>k. Response (if k = 1 then 429 else 500) None None))) = 4 \<and>
   fst (get (BaseClient_new None None)
          (\<lambda>k. Response (if k = 1 then 429 else 500) None None)) = Inl (APIError 500) \<and>
   get (BaseClient_new None None) (\<lambda>k. Response 400 None None) = (Inl (APIError 400), [Fetch 0])"
proof -
  have h: "0 \<le> retryAttempts (BaseClient_new None None)"
    by (simp add: BaseClient_new_def)
  show ?thesis
    using get_bounded_classified_retry
            [OF h, of "\<lambda>k. if k = 1 then 429 else 500" "\<lambda>k. None" "\<lambda>k. None" 400
               "\<lambda>k. Response 400 None None" None None None]
    by (simp add: BaseClient_new_def)
qed

lemma get_loop_trace:
  "0 \<le> a \<Longrightarrow> a \<le> retryAttempts c \<Longrightarrow>
   \<exists>n. a \<le> n \<and> n \<le> retryAttempts c \<and>
       snd (get_loop c net a le ls tr) = tr @ concat (map (attempt_trace c net) [a..n])"
proof (induction "nat (retryAttempts c - a)" arbitrary: a le ls tr)
  case 0
  then have a: "a = retryAttempts c" by simp
  have "snd (get_loop c net a le ls tr) = tr @ attempt_trace c net a"
    using a
    by (subst get_loop.simps)
       (auto simp: Let_def attempt_trace_def try_block_def catch_block_def is_429_def
             split: fetch_result.splits option.splits sum.splits thrown.splits decision.splits)
  then show ?case using a by (intro exI [of _ a]) simp
next
  case (Suc n)
  then have lt: "a < retryAttempts c" and n: "n = nat (retryAttempts c - (a + 1))"
    and a0: "0 \<le> a + 1" and a1: "a + 1 \<le> retryAttempts c" by auto
  note IH = Suc.hyps(1) [OF n a0 a1]
  let ?tr2 = "(if 0 < a then tr @ [Sleep (backoff c (a - 1))] else tr) @ [Fetch a]"
  let ?r = "try_block c a (net a) ls"
  have "(\<exists>d. fst ?r = Inr d) \<or>
        (\<exists>err e. fst ?r = Inl err \<and> catch_block c a err (snd ?r) = Throw e) \<or>
        (\<exists>err. fst ?r = Inl err \<and> catch_block c a err (snd ?r) = Continue None) \<or>
        (\<exists>err ms. fst ?r = Inl err \<and> catch_block c a err (snd ?r) = Continue (Some ms))"
  proof (cases "fst ?r")
    case (Inr d)
    then show ?thesis by blast
  next
    case (Inl err)
    show ?thesis
    proof (cases "catch_block c a err (snd ?r)")
      case (Throw e)
      with Inl show ?thesis by blast
    next
      case (Continue sl)
      with Inl show ?thesis by (cases sl) auto
    qed
  qed
  then consider (ret) d where "fst ?r = Inr d"
    | (thr) err e where "fst ?r = Inl err" "catch_block c a err (snd ?r) = Throw e"
    | (cont) err where "fst ?r = Inl err" "catch_block c a err (snd ?r) = Continue None"
    | (slp) err ms where "fst ?r = Inl err" "catch_block c a err (snd ?r) = Continue (Some ms)"
    by blast
  then show ?case
  proof cases
    case ret
    then have n429: "\<not> is_429 (net a)"
      by (auto simp: try_block_def is_429_def split: fetch_result.splits if_splits option.splits)
    have "snd (get_loop c net a le ls tr) = tr @ attempt_trace c net a"
      using ret n429 lt by (subst get_loop.simps) (auto simp: Let_def attempt_trace_def)
    then show ?thesis using lt by (intro exI [of _ a]) simp
  next
    case thr
    then have n429: "\<not> is_429 (net a)"
      using lt
      by (auto simp: try_block_def catch_block_def is_429_def
               split: fetch_result.splits if_splits option.splits thrown.splits)
    have "snd (get_loop c net a le ls tr) = tr @ attempt_trace c net a"
      using thr n429 lt by (subst get_loop.simps) (auto simp: Let_def attempt_trace_def)
    then show ?thesis using lt by (intro exI [of _ a]) simp
  next
    case cont
    then have n429: "\<not> is_429 (net a)"
      using lt
      by (auto simp: try_block_def catch_block_def is_429_def
               split: fetch_result.splits if_splits option.splits thrown.splits)
    obtain m where m: "a + 1 \<le> m" "m \<le> retryAttempts c"
      "snd (get_loop c net (a + 1) (Some err) (snd ?r) ?tr2) = ?tr2 @ concat (map (attempt_trace c net) [a + 1..m])"
      using IH by blast
    have "snd (get_loop c net a le ls tr) = tr @ attempt_trace c net a @ concat (map (attempt_trace c net) [a + 1..m])"
      using cont n429 m(3) lt by (subst get_loop.simps) (auto simp: Let_def attempt_trace_def)
    moreover have "[a..m] = a # [a + 1..m]" using m(1) by (simp add: upto_rec1)
    ultimately show ?thesis using m(1,2) by (intro exI [of _ m]) simp
  next
    case slp
    then have is429: "is_429 (net a)" and ms: "ms = rate_limit_sleep c a (retryAfterMs c a (retry_after_header (net a)))"
      using lt
      by (auto simp: try_block_def catch_block_def is_429_def retry_after_header_def
               split: fetch_result.splits if_splits option.splits thrown.splits)
    obtain m where m: "a + 1 \<le> m" "m \<le> retryAttempts c"
      "snd (get_loop c net (a + 1) (Some err) (snd ?r) (?tr2 @ [Sleep ms])) =
         (?tr2 @ [Sleep ms]) @ concat (map (attempt_trace c net) [a + 1..m])"
      using IH by blast
    have "snd (get_loop c net a le ls tr) = tr @ attempt_trace c net a @ concat (map (attempt_trace c net) [a + 1..m])"
      using slp is429 ms m(3) lt by (subst get_loop.simps) (auto simp: Let_def attempt_trace_def)
    moreover have "[a..m] = a # [a + 1..m]" using m(1) by (simp add: upto_rec1)
    ultimately show ?thesis using m(1,2) by (intro exI [of _ m]) simp
  qed
qed

lemma sleeps_simps [simp]:
  "sleeps [] = []"
  "sleeps (tr @ tr') = sleeps tr @ sleeps tr'"
  "sleeps (Fetch k # tr) = sleeps tr"
  "sleeps (Sleep ms # tr) = ms # sleeps tr"
  by (simp_all add: sleeps_def)

lemma sleeps_no_429:
  assumes "\<forall>k. \<not> is_429 (net k)"
  shows "0 \<le> a \<Longrightarrow> a \<le> n \<Longrightarrow> sleeps (concat (map (attempt_trace c net) [a + 1..n])) = map (backoff c) [a..n - 1]"
proof (induction "nat (n - a)" arbitrary: a)
  case 0
  then show ?case by simp
next
  case (Suc k)
  then have lt: "a < n" by simp
  have "[a + 1..n] = (a + 1) # [a + 1 + 1..n]" using lt by (simp add: upto_rec1)
  moreover have "[a..n - 1] = a # [a + 1..n - 1]" using lt by (simp add: upto_rec1)
  moreover have "sleeps (concat (map (attempt_trace c net) [a + 1 + 1..n])) = map (backoff c) [a + 1..n - 1]"
    using Suc by (intro Suc.hyps(1)) auto
  moreover have "sleeps (attempt_trace c net (a + 1)) = [backoff c a]"
    using assms Suc.prems by (simp add: attempt_trace_def)
  ultimately show ?case by simp
qed

text \<open>
  The trace of a request is the concatenation of the traces of its attempts \<open>0..n\<close>.
  When no response is a 429, the sleeps of a request are exactly
  \<open>retryDelay * 2^0, ..., retryDelay * 2^(n-1)\<close>, one before each retry.
\<close>

lemma get_trace:
  assumes "0 \<le> retryAttempts c"
  shows "\<exists>n. 0 \<le> n \<and> n \<le> retryAttempts c \<and>
             snd (get c net) = concat (map (attempt_trace c net) [0..n])"
  using get_loop_trace [of 0 c net None None "[]"] assms unfolding get_def by auto

lemma get_backoff_without_429:
  assumes "0 \<le> retryAttempts c" and h: "\<forall>k. \<not> is_429 (net k)"
  shows "\<exists>n. 0 \<le> n \<and> n \<le> retryAttempts c \<and>
             sleeps (snd (get c net)) = map (\<lambda>k. retryDelay c * 2 ^ nat k) [0..n - 1]"
proof -
  obtain n where n: "0 \<le> n" "n \<le> retryAttempts c"
    "snd (get c net) = concat (map (attempt_trace c net) [0..n])"
    using get_trace [OF assms(1)] by blast
  have "[0..n] = 0 # [0 + 1..n]" using n(1) by (simp add: upto_rec1)
  moreover have "sleeps (attempt_trace c net 0) = []" using h by (simp add: attempt_trace_def)
  ultimately have "sleeps (snd (get c net)) = map (backoff c) [0..n - 1]"
    using sleeps_no_429 [OF h, of 0 n c] n by simp
  moreover have "backoff c = (\<lambda>k. retryDelay c * 2 ^ nat k)"
    by (rule ext) (simp add: backoff_def)
  ultimately show ?thesis using n by auto
qed

lemma get_backoff_5xx_example:
  "get \<lparr>retryAttempts = 2, retryDelay = 1000\<rparr> (\<lambda>k. Response 500 None None) =
     (Inl (APIError 500), [Fetch 0, Sleep 1000, Fetch 1, Sleep 2000, Fetch 2])"
  by code_simp

text \<open>
  C7. The claim says that before a retry caused by a 429 response the delay slept is the
  \<^verbatim>\<open>Retry-After\<close> hint when there is one, and the exponential backoff
  \<open>retryDelay * 2^k\<close> otherwise. With one retry allowed and a base delay of 1000 ms,
  a first response 429 and a second response 200:

    \<^item> when the 429 carries \<^verbatim>\<open>Retry-After: 2\<close>, the \<^verbatim>\<open>catch\<close> block sleeps
      the hint, 2000 ms, and the top of the next iteration sleeps the backoff, 1000 ms,
      again: 3000 ms pass before the retry, not 2000;

    \<^item> when the 429 carries no such header, the \<^verbatim>\<open>catch\<close> block sleeps the
      backoff, 1000 ms, and the top of the next iteration sleeps the same 1000 ms once
      more: 2000 ms pass before the retry, not 1000.
\<close>

theorem get_429_sleeps_twice:
  "get \<lparr>retryAttempts = 1, retryDelay = 1000\<rparr>
       (\<lambda>k. if k = 0 then Response 429 (Some ''2'') None else Response 200 None (Some JNull)) =
     (Inr JNull, [Fetch 0, Sleep 2000, Sleep 1000, Fetch 1]) \<and>
   get \<lparr>retryAttempts = 1, retryDelay = 1000\<rparr>
       (\<lambda>k. if k = 0 then Response 429 None None else Response 200 None (Some JNull)) =
     (Inr JNull, [Fetch 0, Sleep 1000, Sleep 1000, Fetch 1])"
  by code_simp

section \<open>Properties of the streaming transport\<close>

lemma invoke_all_fields [simp]:
  "ws (invoke_all ev d hs s) = ws s"
  "subscriptions (invoke_all ev d hs s) = subscriptions s"
  "sent (invoke_all ev d hs s) = sent s"
  "eventHandlers (invoke_all ev d hs s) = eventHandlers s"
  "isConnecting (invoke_all ev d hs s) = isConnecting s"
  "reconnectAttempts (invoke_all ev d hs s) = reconnectAttempts s"
  "reconnectTimer (invoke_all ev d hs s) = reconnectTimer s"
  "cfg_reconnect (invoke_all ev d hs s) = cfg_reconnect s"
  "cfg_reconnectInterval (invoke_all ev d hs s) = cfg_reconnectInterval s"
  "cfg_maxReconnectAttempts (invoke_all ev d hs s) = cfg_maxReconnectAttempts s"
  by (induction hs arbitrary: s; simp add: Let_def)+

lemma invoke_all_calls:
  "calls (invoke_all ev d hs s) = calls s @ map (\<lambda>h. (h_id h, ev, d)) hs"
  by (induction hs arbitrary: s) (simp_all add: Let_def)

lemma invoke_all_logged:
  "logged (invoke_all ev d hs s) = logged s @ map (\<lambda>h. ev) (filter (\<lambda>h. h_throws h d) hs)"
  by (induction hs arbitrary: s) (simp_all add: Let_def)

lemma emit_fields [simp]:
  "ws (emit ev d s) = ws s"
  "subscriptions (emit ev d s) = subscriptions s"
  "sent (emit ev d s) = sent s"
  "eventHandlers (emit ev d s) = eventHandlers s"
  "isConnecting (emit ev d s) = isConnecting s"
  "reconnectAttempts (emit ev d s) = reconnectAttempts s"
  "reconnectTimer (emit ev d s) = reconnectTimer s"
  "cfg_reconnect (emit ev d s) = cfg_reconnect s"
  "cfg_reconnectInterval (emit ev d s) = cfg_reconnectInterval s"
  "cfg_maxReconnectAttempts (emit ev d s) = cfg_maxReconnectAttempts s"
  by (simp_all add: emit_def)

lemma emit_calls:
  "calls (emit ev d s) = calls s @ map (\<lambda>h. (h_id h, ev, d)) (eventHandlers s ev)"
  by (simp add: emit_def invoke_all_calls)

lemma emit_logged:
  "logged (emit ev d s) = logged s @ map (\<lambda>h. ev) (filter (\<lambda>h. h_throws h d) (eventHandlers s ev))"
  by (simp add: emit_def invoke_all_logged)

lemma is_open_emit [simp]: "is_open (emit ev d s) = is_open s"
  by (simp add: is_open_def)

lemma subscribe_closed:
  "\<not> is_open s \<Longrightarrow> channel \<noteq> [] \<Longrightarrow>
   subscribe channel s = Inr (s\<lparr>subscriptions := set_add channel (subscriptions s)\<rparr>)"
  by (simp add: subscribe_def)

lemma subscribe_open:
  "is_open s \<Longrightarrow> channel \<noteq> [] \<Longrightarrow>
   \<exists>s'. subscribe channel s = Inr s' \<and> sent s' = sent s @ [SubscribeFrame channel] \<and>
        subscriptions s' = set_add channel (subscriptions s) \<and> ws s' = ws s \<and>
        eventHandlers s' = eventHandlers s"
  by (simp add: subscribe_def send_def)

lemma set_add_member: "x \<in> set xs \<Longrightarrow> set_add x xs = xs"
  by (simp add: set_add_def)

lemma resubscribe_open:
  "is_open s \<Longrightarrow> [] \<notin> set chans \<Longrightarrow> set chans \<subseteq> set (subscriptions s) \<Longrightarrow>
   \<exists>s'. resubscribe chans s = Inr s' \<and> sent s' = sent s @ map SubscribeFrame chans \<and>
        subscriptions s' = subscriptions s \<and> ws s' = ws s"
proof (induction chans arbitrary: s)
  case Nil
  then show ?case by simp
next
  case (Cons ch rest)
  then have ch: "ch \<noteq> []" "ch \<in> set (subscriptions s)" by auto
  obtain s1 where s1: "subscribe ch s = Inr s1" "sent s1 = sent s @ [SubscribeFrame ch]"
      "subscriptions s1 = set_add ch (subscriptions s)" "ws s1 = ws s"
    using subscribe_open [OF Cons.prems(1) ch(1)] by blast
  have sub1: "subscriptions s1 = subscriptions s" using s1(3) ch(2) by (simp add: set_add_member)
  have "is_open s1" using s1(4) Cons.prems(1) by (simp add: is_open_def)
  moreover have "[] \<notin> set rest" using Cons.prems(2) by auto
  moreover have "set rest \<subseteq> set (subscriptions s1)" using Cons.prems(3) sub1 by auto
  ultimately obtain s' where "resubscribe rest s1 = Inr s'" "sent s' = sent s1 @ map SubscribeFrame rest"
      "subscriptions s' = subscriptions s1" "ws s' = ws s1"
    using Cons.IH by blast
  then show ?case using s1 sub1 by simp
qed

lemma on_open_replay:
  assumes "[] \<notin> set (subscriptions s)"
  shows "\<exists>s'. on_open s = Inr s' \<and> sent s' = sent s @ map SubscribeFrame (subscriptions s) \<and>
              subscriptions s' = subscriptions s \<and> ws s' = Some OPEN"
proof -
  let ?s1 = "emit EvOpen NoData (s\<lparr>ws := Some OPEN, isConnecting := False, reconnectAttempts := 0\<rparr>)"
  have "is_open ?s1" by (simp add: is_open_def)
  moreover have "[] \<notin> set (subscriptions ?s1)" using assms by simp
  ultimately obtain s' where "resubscribe (subscriptions ?s1) ?s1 = Inr s'"
      "sent s' = sent ?s1 @ map SubscribeFrame (subscriptions ?s1)"
      "subscriptions s' = subscriptions ?s1" "ws s' = ws ?s1"
    using resubscribe_open [of ?s1 "subscriptions ?s1"] by blast
  then show ?thesis by (simp add: on_open_def Let_def)
qed

lemma handleReconnect_keeps [simp]:
  "subscriptions (handleReconnect s) = subscriptions s"
  "sent (handleReconnect s) = sent s"
  by (simp_all add: handleReconnect_def Let_def)

lemma on_close_keeps [simp]:
  "subscriptions (on_close s) = subscriptions s"
  "sent (on_close s) = sent s"
  by (simp_all add: on_close_def)

lemma on_error_keeps [simp]:
  "subscriptions (on_error s) = subscriptions s"
  "sent (on_error s) = sent s"
  by (simp_all add: on_error_def)

lemma connect_keeps [simp]:
  "subscriptions (connect s) = subscriptions s"
  "sent (connect s) = sent s"
  by (simp_all add: connect_def)

lemma handleMessage_keeps [simp]:
  "subscriptions (snd (handleMessage m s)) = subscriptions s"
  "sent (snd (handleMessage m s)) = sent s"
  by (simp_all add: handleMessage_def Let_def)

lemma on_message_keeps [simp]:
  "subscriptions (on_message f s) = subscriptions s"
  "sent (on_message f s) = sent s"
  by (auto simp: on_message_def split: option.splits prod.splits
           dest: arg_cong [where f = "\<lambda>p. subscriptions (snd p)"] arg_cong [where f = "\<lambda>p. sent (snd p)"])

lemma set_set_add [simp]: "set (set_add x xs) = insert x (set xs)"
  by (auto simp: set_add_def)

lemma set_set_delete [simp]: "set (set_delete x xs) = set xs - {x}"
  by (auto simp: set_delete_def)

lemma subscribe_any:
  "ch \<noteq> [] \<Longrightarrow>
   \<exists>s'. subscribe ch s = Inr s' \<and> subscriptions s' = set_add ch (subscriptions s) \<and> ws s' = ws s"
  using subscribe_open [of s ch] subscribe_closed [of s ch] by (cases "is_open s") auto

text \<open>No operation puts the empty channel into the set.\<close>

lemma no_empty_channel_invariant:
  "[] \<notin> set (subscriptions (WebSocketClient_new r i m))"
  "[] \<notin> set (subscriptions s) \<Longrightarrow> subscribe ch s = Inr s' \<Longrightarrow> [] \<notin> set (subscriptions s')"
  "[] \<notin> set (subscriptions s) \<Longrightarrow> unsubscribe ch s = Inr s' \<Longrightarrow> [] \<notin> set (subscriptions s')"
  "[] \<notin> set (subscriptions s) \<Longrightarrow> on_open s = Inr s' \<Longrightarrow> [] \<notin> set (subscriptions s')"
  "[] \<notin> set (subscriptions s) \<Longrightarrow> [] \<notin> set (subscriptions (on_close s))"
  "[] \<notin> set (subscriptions s) \<Longrightarrow> [] \<notin> set (subscriptions (connect s))"
  "[] \<notin> set (subscriptions (disconnect s))"
proof -
  show "[] \<notin> set (subscriptions (WebSocketClient_new r i m))"
    by (simp add: WebSocketClient_new_def)
  show "[] \<notin> set (subscriptions s) \<Longrightarrow> subscribe ch s = Inr s' \<Longrightarrow> [] \<notin> set (subscriptions s')"
    by (auto simp: subscribe_def send_def split: if_splits)
  show "[] \<notin> set (subscriptions s) \<Longrightarrow> unsubscribe ch s = Inr s' \<Longrightarrow> [] \<notin> set (subscriptions s')"
    by (auto simp: unsubscribe_def send_def split: if_splits)
  show "[] \<notin> set (subscriptions s) \<Longrightarrow> on_open s = Inr s' \<Longrightarrow> [] \<notin> set (subscriptions s')"
    using on_open_replay [of s] by auto
  show "[] \<notin> set (subscriptions s) \<Longrightarrow> [] \<notin> set (subscriptions (on_close s))" by simp
  show "[] \<notin> set (subscriptions s) \<Longrightarrow> [] \<notin> set (subscriptions (connect s))" by simp
  show "[] \<notin> set (subscriptions (disconnect s))" by (simp add: disconnect_def)
qed

lemma replay_after_two_subscriptions:
  assumes "subscriptions s = []" "a \<noteq> []" "b \<noteq> []"
  shows "\<exists>s1 s2 s3. subscribe a s = Inr s1 \<and> subscribe b s1 = Inr s2 \<and>
           on_open (timer_fired (on_close s2)) = Inr s3 \<and>
           set (drop (length (sent s2)) (sent s3)) = {SubscribeFrame a, SubscribeFrame b}"
proof -
  obtain s1 where s1: "subscribe a s = Inr s1" "subscriptions s1 = set_add a (subscriptions s)"
    using subscribe_any [OF assms(2)] by blast
  obtain s2 where s2: "subscribe b s1 = Inr s2" "subscriptions s2 = set_add b (subscriptions s1)"
    using subscribe_any [OF assms(3)] by blast
  have subs: "set (subscriptions s2) = {a, b}" using s1 s2 assms(1) by auto
  let ?t = "timer_fired (on_close s2)"
  have t: "subscriptions ?t = subscriptions s2" "sent ?t = sent s2" by (simp_all add: timer_fired_def)
  have "[] \<notin> set (subscriptions ?t)" using subs assms t by auto
  then obtain s3 where s3: "on_open ?t = Inr s3" "sent s3 = sent ?t @ map SubscribeFrame (subscriptions ?t)"
    using on_open_replay by blast
  have "set (drop (length (sent s2)) (sent s3)) = SubscribeFrame ` set (subscriptions s2)"
    using s3 t by simp
  then show ?thesis using s1 s2 s3 subs by auto
qed

text \<open>
  C8. In every state of the client whose set holds no empty channel (an invariant: see
  \<open>no_empty_channel_invariant\<close>): the socket's close and error events, the reconnect
  timer and inbound frames leave the subscription set as it is, and \<^verbatim>\<open>disconnect()\<close>
  empties it; \<^verbatim>\<open>subscribe\<close> (of a channel, which is a non-empty string) and
  \<^verbatim>\<open>unsubscribe\<close> on a socket that is not open change the set and send no frame;
  the socket's open event sends one subscribe frame for
  each channel of the set, in the order of the set, and nothing else, also when it follows
  a close event and the reconnect timer. So after subscribing to \<open>a\<close> and \<open>b\<close> on an
  empty set, losing the connection and reconnecting, the frames sent on reopening are
  exactly the subscribe frames of \<open>a\<close> and \<open>b\<close>.
\<close>

theorem subscription_replay:
  assumes "[] \<notin> set (subscriptions s)"
  shows "subscriptions (on_close s) = subscriptions s \<and>
         subscriptions (on_error s) = subscriptions s \<and>
         subscriptions (timer_fired s) = subscriptions s \<and>
         subscriptions (on_message f s) = subscriptions s \<and>
         subscriptions (disconnect s) = [] \<and>
         (\<not> is_open s \<and> ch \<noteq> [] \<longrightarrow>
            (\<exists>s'. subscribe ch s = Inr s' \<and> sent s' = sent s \<and>
                  set (subscriptions s') = insert ch (set (subscriptions s)))) \<and>
         (\<not> is_open s \<longrightarrow>
            (\<exists>s'. unsubscribe ch s = Inr s' \<and> sent s' = sent s \<and>
                  set (subscriptions s') = set (subscriptions s) - {ch})) \<and>
         (\<exists>s'. on_open s = Inr s' \<and> subscriptions s' = subscriptions s \<and>
               sent s' = sent s @ map SubscribeFrame (subscriptions s)) \<and>
         (\<exists>s'. on_open (timer_fired (on_close s)) = Inr s' \<and> subscriptions s' = subscriptions s \<and>
               sent s' = sent s @ map SubscribeFrame (subscriptions s)) \<and>
         (subscriptions s = [] \<and> a \<noteq> [] \<and> b \<noteq> [] \<longrightarrow>
            (\<exists>s1 s2 s3. subscribe a s = Inr s1 \<and> subscribe b s1 = Inr s2 \<and>
               on_open (timer_fired (on_close s2)) = Inr s3 \<and>
               set (drop (length (sent s2)) (sent s3)) = {SubscribeFrame a, SubscribeFrame b}))"
proof -
  have t: "[] \<notin> set (subscriptions (timer_fired (on_close s)))"
    using assms by (simp add: timer_fired_def)
  have "subscriptions s = [] \<and> a \<noteq> [] \<and> b \<noteq> [] \<longrightarrow>
            (\<exists>s1 s2 s3. subscribe a s = Inr s1 \<and> subscribe b s1 = Inr s2 \<and>
               on_open (timer_fired (on_close s2)) = Inr s3 \<and>
               set (drop (length (sent s2)) (sent s3)) = {SubscribeFrame a, SubscribeFrame b})"
    using replay_after_two_subscriptions [of s a b] by blast
  moreover have "\<exists>s'. on_open s = Inr s' \<and> subscriptions s' = subscriptions s \<and>
               sent s' = sent s @ map SubscribeFrame (subscriptions s)"
    using on_open_replay [OF assms] by blast
  moreover have "\<exists>s'. on_open (timer_fired (on_close s)) = Inr s' \<and> subscriptions s' = subscriptions s \<and>
               sent s' = sent s @ map SubscribeFrame (subscriptions s)"
    using on_open_replay [OF t] by (simp add: timer_fired_def) blast
  ultimately show ?thesis
    by (simp add: timer_fired_def disconnect_def subscribe_closed unsubscribe_def)
qed

theorem subscription_replay_witness:
  "[] \<notin> set (subscriptions (WebSocketClient_new None None None)) \<and>
   subscriptions (WebSocketClient_new None None None) = [] \<and>
   (\<exists>s1 s2 s3. subscribe ''ticker:BTC'' (WebSocketClient_new None None None) = Inr s1 \<and>
       subscribe ''trades:BTC'' s1 = Inr s2 \<and>
       on_open (timer_fired (on_close s2)) = Inr s3 \<and>
       set (drop (length (sent s2)) (sent s3)) =
         {SubscribeFrame ''ticker:BTC'', SubscribeFrame ''trades:BTC''})"
proof -
  have h: "[] \<notin> set (subscriptions (WebSocketClient_new None None None))"
    by (simp add: WebSocketClient_new_def)
  show ?thesis
    using subscription_replay [OF h, of None "''x''" "''ticker:BTC''" "''trades:BTC''"]
    by (simp add: WebSocketClient_new_def)
qed

lemma message_calls_append [simp]: "message_calls (xs @ ys) = message_calls xs @ message_calls ys"
  by (simp add: message_calls_def)

lemma message_calls_emit:
  "message_calls (calls (emit ev d s)) =
     message_calls (calls s) @ (if ev = EvMessage then map (\<lambda>h. (h_id h, ev, d)) (eventHandlers s ev) else [])"
  by (simp add: emit_calls message_calls_def filter_map comp_def)

lemma handleMessage_handlers [simp]:
  "eventHandlers (snd (handleMessage m s)) = eventHandlers s"
  by (simp add: handleMessage_def Let_def)

lemma handleMessage_message_calls:
  "message_calls (calls (snd (handleMessage m s))) =
     message_calls (calls s) @ map (\<lambda>h. (h_id h, EvMessage, MessageData m)) (eventHandlers s EvMessage)"
  by (simp add: handleMessage_def Let_def message_calls_emit)

lemma on_message_handlers [simp]: "eventHandlers (on_message f s) = eventHandlers s"
  by (auto simp: on_message_def split: option.splits prod.splits
           dest: arg_cong [where f = "\<lambda>p. eventHandlers (snd p)"])

lemma on_message_message_calls:
  "message_calls (calls (on_message f s)) =
     message_calls (calls s) @
     (case f of None \<Rightarrow> [] | Some m \<Rightarrow> map (\<lambda>h. (h_id h, EvMessage, MessageData m)) (eventHandlers s EvMessage))"
proof (cases f)
  case None
  then show ?thesis by (simp add: on_message_def message_calls_emit)
next
  case (Some m)
  obtain e s1 where hm: "handleMessage m s = (e, s1)" by (cases "handleMessage m s")
  have s1: "s1 = snd (handleMessage m s)" using hm by simp
  have "message_calls (calls (on_message f s)) = message_calls (calls s1)"
    using Some hm by (cases e) (simp_all add: on_message_def message_calls_emit)
  then show ?thesis using Some s1 handleMessage_message_calls [of m s] by simp
qed

lemma receive_all_handlers [simp]: "eventHandlers (receive_all frames s) = eventHandlers s"
  unfolding receive_all_def by (induction frames arbitrary: s) simp_all

lemma receive_all_message_calls:
  "message_calls (calls (receive_all frames s)) =
     message_calls (calls s) @
     concat (map (\<lambda>m. map (\<lambda>h. (h_id h, EvMessage, MessageData m)) (eventHandlers s EvMessage))
               (parsed_frames frames))"
  unfolding receive_all_def
proof (induction frames arbitrary: s)
  case Nil
  then show ?case by (simp add: parsed_frames_def)
next
  case (Cons f frames)
  have "eventHandlers (on_message f s) = eventHandlers s" by simp
  then show ?case
    using Cons.IH [of "on_message f s"] on_message_message_calls [of f s]
    by (cases f) (simp_all add: parsed_frames_def)
qed

text \<open>
  C9. \<^verbatim>\<open>emit\<close> calls every handler registered for the event, in registration order
  and with the same argument, whichever of them throw; each throw is caught and logged,
  and \<^verbatim>\<open>emit\<close> itself returns. Over a sequence of inbound frames, every frame that
  parses reaches every \<^verbatim>\<open>message\<close> handler, whatever the handlers did on the frames
  before it.
\<close>

theorem emit_isolates_handlers:
  "calls (emit ev d s) = calls s @ map (\<lambda>h. (h_id h, ev, d)) (eventHandlers s ev) \<and>
   logged (emit ev d s) = logged s @ map (\<lambda>h. ev) (filter (\<lambda>h. h_throws h d) (eventHandlers s ev)) \<and>
   eventHandlers (emit ev d s) = eventHandlers s \<and>
   message_calls (calls (receive_all frames s)) =
     message_calls (calls s) @
     concat (map (\<lambda>m. map (\<lambda>h. (h_id h, EvMessage, MessageData m)) (eventHandlers s EvMessage))
               (parsed_frames frames))"
  by (simp add: emit_calls emit_logged receive_all_message_calls)

theorem emit_isolates_handlers_witness:
  "calls (emit EvTrade (FieldData (Some (JNum 5)))
            (on EvTrade \<lparr>h_id = 2, h_throws = (\<lambda>d. False)\<rparr>
               (on EvTrade \<lparr>h_id = 1, h_throws = (\<lambda>d. True)\<rparr>
                  (WebSocketClient_new None None None)))) =
     [(1, EvTrade, FieldData (Some (JNum 5))), (2, EvTrade, FieldData (Some (JNum 5)))] \<and>
   logged (emit EvTrade (FieldData (Some (JNum 5)))
            (on EvTrade \<lparr>h_id = 2, h_throws = (\<lambda>d. False)\<rparr>
               (on EvTrade \<lparr>h_id = 1, h_throws = (\<lambda>d. True)\<rparr>
                  (WebSocketClient_new None None None)))) = [EvTrade]"
  using emit_isolates_handlers
          [of EvTrade "FieldData (Some (JNum 5))"
              "on EvTrade \<lparr>h_id = 2, h_throws = (\<lambda>d. False)\<rparr>
                 (on EvTrade \<lparr>h_id = 1, h_throws = (\<lambda>d. True)\<rparr>
                    (WebSocketClient_new None None None))" "[]"]
  by (simp add: on_def WebSocketClient_new_def)

section \<open>Properties of the request signer\<close>

text \<open>The text that is signed, computed through \<open>sortJsonKeys\<close> and \<^verbatim>\<open>JSON.stringify\<close>.\<close>

lemma signed_message_text: "createCompactJson (messagePayload operation \<lparr>timestamp = ts, expiry_window = Some w\<rparr> data) =
   signed_text operation ts w data"
  by (simp add: createCompactJson_def messagePayload_def signed_text_def sort_object_def own_props_def
        define_prop_def assign_step_def assign_prop_def is_array_index_def is_digit_def member_text_def
        JSON_quote_def quote_char_def)


subsection \<open>What is signed and what is sent\<close>

lemma makeSignedRequest_body:
  assumes "makeSignedRequest ed exec now client endpoint operation data options = Inr call"
  shows "\<exists>account signature.
           pc_body call =
             flatten_body account signature now (Some (sc_defaultExpiryWindow client)) data \<and>
           ((\<exists>kp. generateKeypair ed (sc_privateKey client) = Inr kp \<and>
                  signMessage ed
                    (createCompactJson
                       (messagePayload operation
                          \<lparr>timestamp = now, expiry_window = Some (sc_defaultExpiryWindow client)\<rparr> data))
                    (privateKey kp) = Inr signature) \<or>
            (\<exists>path. signWithHardwareWallet exec
                      (createCompactJson
                         (messagePayload operation
                            \<lparr>timestamp = now, expiry_window = Some (sc_defaultExpiryWindow client)\<rparr> data))
                      path = Inr signature))"
  using assms
  unfolding makeSignedRequest_def buildSignedRequest_def buildSignedRequestWithHardwareWallet_def
    createSignatureHeader_def Let_def
  by (auto split: sum.splits if_splits; blast)

lemma header_members:
  "map_of (own_props (header_fields account signature ts (Some w))) k =
     map_of [(''account'', JStr account), (''signature'', JStr signature),
             (''timestamp'', JNum ts), (''expiry_window'', JNum w)] k"
  by (simp add: header_fields_def map_of_own_props)

lemma sample_request:
  "makeSignedRequest toy_ed25519 (\<lambda>c. None) now sample_client endpoint operation data None =
     Inr (sample_call now endpoint operation data)"
  by (simp add: makeSignedRequest_def sample_client_def SignClient_new_def truthy_def or_else_def
        buildSignedRequest_def generateKeypair_def toy_ed25519_def accountAddress_of_def
        startsWith_def createSignatureHeader_def signMessage_def flatten_body_def header_fields_def
        request_headers_def sample_signature_def sample_call_def Let_def)

lemma sample_client_fields:
  "sc_defaultExpiryWindow sample_client = 5000"
  "sc_privateKey sample_client = KeyBytes (replicate 32 1)"
  by (simp_all add: sample_client_def SignClient_new_def)

lemma no_hardware_signature: "signWithHardwareWallet (\<lambda>c. None) t p \<noteq> Inr sg"
  by (simp add: signWithHardwareWallet_def)

lemma sample_wire_text: \<open>wire_text (sample_call 1700000000000 ''/orders/create'' ''create_order''
                 [(''symbol'', JStr ''BTC''), (''price'', JStr ''1'')]) =
   ''{"account":"Acct","signature":'' @
   JSON_quote (sample_signature
     ''{"data":{"price":"1","symbol":"BTC"},"expiry_window":5000,"timestamp":1700000000000,"type":"create_order"}'') @
   '',"timestamp":1700000000000,"expiry_window":5000,"symbol":"BTC","price":"1"}''\<close>
proof -
  have n: "number_to_string 1700000000000 = ''1700000000000''" "number_to_string 5000 = ''5000''"
    by code_simp+
  have ct: \<open>createCompactJson (messagePayload ''create_order''
                 \<lparr>timestamp = 1700000000000, expiry_window = Some 5000\<rparr>
                 [(''symbol'', JStr ''BTC''), (''price'', JStr ''1'')]) =
               ''{"data":{"price":"1","symbol":"BTC"},"expiry_window":5000,"timestamp":1700000000000,"type":"create_order"}''\<close>
    by code_simp
  have q: \<open>JSON_quote ''Acct'' = ''"Acct"''\<close> \<open>JSON_quote ''BTC'' = ''"BTC"''\<close> \<open>JSON_quote ''1'' = ''"1"''\<close>
    \<open>JSON_quote ''account'' = ''"account"''\<close> \<open>JSON_quote ''signature'' = ''"signature"''\<close>
    \<open>JSON_quote ''timestamp'' = ''"timestamp"''\<close> \<open>JSON_quote ''expiry_window'' = ''"expiry_window"''\<close>
    \<open>JSON_quote ''symbol'' = ''"symbol"''\<close> \<open>JSON_quote ''price'' = ''"price"''\<close>
    by code_simp+
  have ai: "\<not> is_array_index ''account''" "\<not> is_array_index ''signature''" "\<not> is_array_index ''timestamp''"
    "\<not> is_array_index ''expiry_window''" "\<not> is_array_index ''symbol''" "\<not> is_array_index ''price''"
    by code_simp+
  show ?thesis
    unfolding wire_text_def sample_call_def ct
    by (simp add: own_props_def define_prop_def ai member_text_def q n)
qed


lemma makeSignedRequest_structure:
  assumes "makeSignedRequest ed exec now client endpoint operation data options = Inr call"
  shows "\<exists>account signature.
           pc_body call =
             [(''account'', JStr account), (''signature'', JStr signature),
              (''timestamp'', JNum now), (''expiry_window'', JNum (sc_defaultExpiryWindow client))] @
             own_props data \<and>
           ((\<exists>kp. generateKeypair ed (sc_privateKey client) = Inr kp \<and>
                  signMessage ed (signed_text operation now (sc_defaultExpiryWindow client) data)
                    (privateKey kp) = Inr signature) \<or>
            (\<exists>path. signWithHardwareWallet exec
                      (signed_text operation now (sc_defaultExpiryWindow client) data) path =
                    Inr signature)) \<and>
           (\<forall>k. map_of (own_props (pc_body call)) k =
                  (case map_of (own_props data) k of
                     Some v \<Rightarrow> Some v
                   | None \<Rightarrow> map_of [(''account'', JStr account), (''signature'', JStr signature),
                                      (''timestamp'', JNum now),
                                      (''expiry_window'', JNum (sc_defaultExpiryWindow client))] k)) \<and>
           wire_text call = JSON_stringify (JObj (pc_body call))"
proof -
  obtain account signature where
    body: "pc_body call =
             flatten_body account signature now (Some (sc_defaultExpiryWindow client)) data"
    and sig: "(\<exists>kp. generateKeypair ed (sc_privateKey client) = Inr kp \<and>
                  signMessage ed
                    (createCompactJson
                       (messagePayload operation
                          \<lparr>timestamp = now, expiry_window = Some (sc_defaultExpiryWindow client)\<rparr> data))
                    (privateKey kp) = Inr signature) \<or>
            (\<exists>path. signWithHardwareWallet exec
                      (createCompactJson
                         (messagePayload operation
                            \<lparr>timestamp = now, expiry_window = Some (sc_defaultExpiryWindow client)\<rparr> data))
                      path = Inr signature)"
    using makeSignedRequest_body [OF assms] by blast
  have members: "map_of (own_props (pc_body call)) k =
                  (case map_of (own_props data) k of
                     Some v \<Rightarrow> Some v
                   | None \<Rightarrow> map_of [(''account'', JStr account), (''signature'', JStr signature),
                                      (''timestamp'', JNum now),
                                      (''expiry_window'', JNum (sc_defaultExpiryWindow client))] k)" for k
    unfolding body flatten_body_def member_flattened header_members ..
  have "pc_body call =
          [(''account'', JStr account), (''signature'', JStr signature),
           (''timestamp'', JNum now), (''expiry_window'', JNum (sc_defaultExpiryWindow client))] @
          own_props data"
    by (simp add: body flatten_body_def header_fields_def)
  then show ?thesis
    using sig members unfolding signed_message_text by (intro exI [of _ account] exI [of _ signature]) (simp add: wire_text_def)
qed

text \<open>
  C1. Whenever \<^verbatim>\<open>makeSignedRequest\<close> reaches \<^verbatim>\<open>post\<close>: the signature was made
  (by the key resolved from the client's private key, or by the hardware wallet) over the
  canonical compact JSON of \<^verbatim>\<open>{ type, timestamp, expiry_window, data: payload }\<close>,
  the payload nested under \<^verbatim>\<open>data\<close>; the body handed to \<^verbatim>\<open>post\<close> is the
  object \<^verbatim>\<open>{ account, signature, timestamp, expiry_window, ...payload }\<close>, the four
  header members followed by the payload's own members at the top level, so that a member
  of the body is the payload's member of that name when there is one and the header's
  otherwise; and the text sent is \<^verbatim>\<open>JSON.stringify\<close> of that body as it is, in the
  order of its definition: it is not passed through the canonicalizer nor signed again.
\<close>

theorem makeSignedRequest_signs_nested_sends_flattened:
  assumes "makeSignedRequest ed exec now client endpoint operation data options = Inr call"
  shows "\<exists>account signature.
           pc_body call =
             [(''account'', JStr account), (''signature'', JStr signature),
              (''timestamp'', JNum now), (''expiry_window'', JNum (sc_defaultExpiryWindow client))] @
             own_props data \<and>
           ((\<exists>kp. generateKeypair ed (sc_privateKey client) = Inr kp \<and>
                  signMessage ed (signed_text operation now (sc_defaultExpiryWindow client) data)
                    (privateKey kp) = Inr signature) \<or>
            (\<exists>path. signWithHardwareWallet exec
                      (signed_text operation now (sc_defaultExpiryWindow client) data) path =
                    Inr signature)) \<and>
           (\<forall>k. map_of (own_props (pc_body call)) k =
                  (case map_of (own_props data) k of
                     Some v \<Rightarrow> Some v
                   | None \<Rightarrow> map_of [(''account'', JStr account), (''signature'', JStr signature),
                                      (''timestamp'', JNum now),
                                      (''expiry_window'', JNum (sc_defaultExpiryWindow client))] k)) \<and>
           wire_text call = JSON_stringify (JObj (pc_body call))"
  using assms by (rule makeSignedRequest_structure)

theorem makeSignedRequest_signs_nested_sends_flattened_witness:
  \<open>\<exists>account signature.
      pc_body (sample_call 1700000000000 ''/orders/create'' ''create_order''
                 [(''symbol'', JStr ''BTC''), (''price'', JStr ''1'')]) =
        [(''account'', JStr account), (''signature'', JStr signature),
         (''timestamp'', JNum 1700000000000), (''expiry_window'', JNum 5000),
         (''symbol'', JStr ''BTC''), (''price'', JStr ''1'')] \<and>
      (\<exists>kp. generateKeypair toy_ed25519 (KeyBytes (replicate 32 1)) = Inr kp \<and>
            signMessage toy_ed25519
              ''{"data":{"price":"1","symbol":"BTC"},"expiry_window":5000,"timestamp":1700000000000,"type":"create_order"}''
              (privateKey kp) = Inr signature) \<and>
      wire_text (sample_call 1700000000000 ''/orders/create'' ''create_order''
                   [(''symbol'', JStr ''BTC''), (''price'', JStr ''1'')]) =
        ''{"account":"Acct","signature":'' @
        JSON_quote (sample_signature
          ''{"data":{"price":"1","symbol":"BTC"},"expiry_window":5000,"timestamp":1700000000000,"type":"create_order"}'') @
        '',"timestamp":1700000000000,"expiry_window":5000,"symbol":"BTC","price":"1"}''\<close>
proof -
  have own: "own_props [(''symbol'', JStr ''BTC''), (''price'', JStr ''1'')] =
               [(''symbol'', JStr ''BTC''), (''price'', JStr ''1'')]"
    by code_simp
  have st: \<open>signed_text ''create_order'' 1700000000000 5000
                 [(''symbol'', JStr ''BTC''), (''price'', JStr ''1'')] =
               ''{"data":{"price":"1","symbol":"BTC"},"expiry_window":5000,"timestamp":1700000000000,"type":"create_order"}''\<close>
    by code_simp
  show ?thesis
    using makeSignedRequest_signs_nested_sends_flattened
            [OF sample_request [of 1700000000000 "''/orders/create''" "''create_order''"
                                   "[(''symbol'', JStr ''BTC''), (''price'', JStr ''1'')]"]]
    unfolding own st sample_client_fields sample_wire_text by (auto simp: no_hardware_signature)
qed

text \<open>
  C10 (as amended). Every body that \<^verbatim>\<open>makeSignedRequest\<close> hands to \<^verbatim>\<open>post\<close>
  has an \<^verbatim>\<open>expiry_window\<close> and a \<^verbatim>\<open>timestamp\<close> member. When the payload has
  no member named \<^verbatim>\<open>expiry_window\<close> (respectively \<^verbatim>\<open>timestamp\<close>), the body's
  value is the one in the canonical message that was signed: the client's expiry window,
  which is the configured \<^verbatim>\<open>expiryWindow\<close> or 5000 when none is configured
  (respectively the time of the call).
\<close>

theorem makeSignedRequest_expiry_and_timestamp:
  assumes "makeSignedRequest ed exec now client endpoint operation data options = Inr call"
  shows "map_of (own_props (pc_body call)) ''expiry_window'' \<noteq> None \<and>
         map_of (own_props (pc_body call)) ''timestamp'' \<noteq> None \<and>
         (''expiry_window'' \<notin> fst ` set data \<longrightarrow>
            map_of (own_props (pc_body call)) ''expiry_window'' =
              Some (JNum (sc_defaultExpiryWindow client))) \<and>
         (''timestamp'' \<notin> fst ` set data \<longrightarrow>
            map_of (own_props (pc_body call)) ''timestamp'' = Some (JNum now)) \<and>
         (\<exists>signature.
            (\<exists>kp. generateKeypair ed (sc_privateKey client) = Inr kp \<and>
                  signMessage ed (signed_text operation now (sc_defaultExpiryWindow client) data)
                    (privateKey kp) = Inr signature) \<or>
            (\<exists>path. signWithHardwareWallet exec
                      (signed_text operation now (sc_defaultExpiryWindow client) data) path =
                    Inr signature)) \<and>
         sc_defaultExpiryWindow (SignClient_new key None) = 5000 \<and>
         sc_defaultExpiryWindow
           (SignClient_new key (Some \<lparr>cfg_accountPublicKey = apk, cfg_agentWalletPublicKey = awk,
                                      cfg_expiryWindow = ew\<rparr>)) =
           (case ew of None \<Rightarrow> 5000 | Some w \<Rightarrow> w)"
proof -
  obtain account signature where
    sig: "(\<exists>kp. generateKeypair ed (sc_privateKey client) = Inr kp \<and>
                  signMessage ed (signed_text operation now (sc_defaultExpiryWindow client) data)
                    (privateKey kp) = Inr signature) \<or>
            (\<exists>path. signWithHardwareWallet exec
                      (signed_text operation now (sc_defaultExpiryWindow client) data) path =
                    Inr signature)"
    and members: "\<And>k. map_of (own_props (pc_body call)) k =
                  (case map_of (own_props data) k of
                     Some v \<Rightarrow> Some v
                   | None \<Rightarrow> map_of [(''account'', JStr account), (''signature'', JStr signature),
                                      (''timestamp'', JNum now),
                                      (''expiry_window'', JNum (sc_defaultExpiryWindow client))] k)"
    using makeSignedRequest_structure [OF assms] by blast
  have absent: "k \<notin> fst ` set data \<Longrightarrow> map_of (own_props data) k = None" for k
    by (simp add: map_of_own_props map_of_eq_None_iff)
  show ?thesis
    using sig by (auto simp: members absent SignClient_new_def split: option.splits)
qed


theorem makeSignedRequest_expiry_and_timestamp_witness:
  "map_of (own_props (pc_body (sample_call 1700000000000 ''/orders/cancel'' ''cancel_order''
                                 [(''order_id'', JNum 42)]))) ''expiry_window'' =
     Some (JNum 5000) \<and>
   map_of (own_props (pc_body (sample_call 1700000000000 ''/orders/cancel'' ''cancel_order''
                                 [(''order_id'', JNum 42)]))) ''timestamp'' =
     Some (JNum 1700000000000)"
  using makeSignedRequest_expiry_and_timestamp
          [OF sample_request [of 1700000000000 "''/orders/cancel''" "''cancel_order''"
                                 "[(''order_id'', JNum 42)]"],
           of "KeyBytes []" None None None]
  by (simp add: sample_client_fields)

text \<open>
  C10 as stated fails: the payload is spread last, so a payload member named
  \<^verbatim>\<open>timestamp\<close> replaces the header's in the body, while the message that is
  signed keeps the time of the call at its top level.
\<close>

theorem makeSignedRequest_payload_timestamp_overrides:
  \<open>makeSignedRequest toy_ed25519 (\<lambda>c. None) 1700000000000 sample_client ''/orders/create''
     ''create_order'' [(''timestamp'', JNum 5)] None =
     Inr (sample_call 1700000000000 ''/orders/create'' ''create_order'' [(''timestamp'', JNum 5)]) \<and>
   map_of (own_props (pc_body (sample_call 1700000000000 ''/orders/create'' ''create_order''
                                 [(''timestamp'', JNum 5)]))) ''timestamp'' = Some (JNum 5) \<and>
   createCompactJson (messagePayload ''create_order''
                        \<lparr>timestamp = 1700000000000, expiry_window = Some 5000\<rparr>
                        [(''timestamp'', JNum 5)]) =
     ''{"data":{"timestamp":5},"expiry_window":5000,"timestamp":1700000000000,"type":"create_order"}''\<close>
proof -
  have \<open>createCompactJson (messagePayload ''create_order''
                        \<lparr>timestamp = 1700000000000, expiry_window = Some 5000\<rparr>
                        [(''timestamp'', JNum 5)]) =
     ''{"data":{"timestamp":5},"expiry_window":5000,"timestamp":1700000000000,"type":"create_order"}''\<close>
    by code_simp
  moreover have "map_of (own_props (pc_body (sample_call 1700000000000 ''/orders/create''
                   ''create_order'' [(''timestamp'', JNum 5)]))) ''timestamp'' = Some (JNum 5)"
    by (simp only: sample_call_def post_call.simps member_flattened)
       (simp add: map_of_own_props)
  ultimately show ?thesis by (simp add: sample_request)
qed

end
